theory Spec2Isabelle
  imports Main "HOL-Library.Char_ord" "HOL-Library.List_Lexorder"
begin

section \<open>Python values shared by both scripts\<close>

text \<open>
  Strings are lists of characters; a character stands for a code point below 256, and the
  order on strings is the lexicographic order of the code points, which is how Python
  compares \<^verbatim>\<open>str\<close> values. A byte string (\<^verbatim>\<open>bytes\<close>) is a list of characters as
  well, one character per byte.

  Exceptions are values. Only subclasses of \<^verbatim>\<open>Exception\<close> are modelled: they are what
  \<^verbatim>\<open>except Exception\<close> catches. \<open>LibraryError\<close> stands for any exception that a
  client library of a remote service raises (an HTTP failure, a timeout, a rejected request).
\<close>

datatype py_error =
    Exception' string
  | ValueError string
  | AttributeError
  | TypeError
  | IndexError
  | EOFError
  | OSError string
  | UnpicklingError
  | Base64Error
  | GarminConnectAuthenticationError
  | LibraryError string

definition truthy :: "string option \<Rightarrow> bool" where
  \<comment> \<open>Python's truth value of a value that is \<^verbatim>\<open>None\<close> or a string\<close>
  "truthy v = (case v of None \<Rightarrow> False | Some s \<Rightarrow> s \<noteq> [])"

section \<open>The duplicate resolver (cleanup-duplicates.py)\<close>

subsection \<open>The records of the remote database\<close>

text \<open>
  A page of the Notion database is a nested dictionary. The script reads it with chains of
  \<^verbatim>\<open>.get(key, default)\<close>, so three cases matter for every nested object: the key is
  absent (the default is used), the value is \<^verbatim>\<open>null\<close> (the next \<^verbatim>\<open>.get\<close> raises
  \<^verbatim>\<open>AttributeError\<close> on \<^verbatim>\<open>None\<close>), or the object is there. The leaves are strings
  whenever they are present, as the Notion API defines them; \<open>None\<close> is an absent leaf.
\<close>

datatype 'a field = Missing | Null | Present 'a

record page =
  page_id :: string
  prop_Date :: "string option field field"
  prop_Activity_Type :: "string option field field"
  prop_Activity_Name :: "string option field list field field"
  page_created_time :: "string option"
  page_last_edited_time :: "string option"

record response =
  results :: "page list"
  has_more :: bool
  next_cursor :: "string option"

record activity_info =
  id' :: string
  date :: string
  activity_type :: string
  activity_name :: string
  unique_key :: string
  created_time :: string
  last_edited_time :: string

type_synonym duplicates_map = "(string \<times> activity_info list) list"

definition get_dict :: "'a field \<Rightarrow> 'a \<Rightarrow> py_error + 'a" where
  \<comment> \<open>\<^verbatim>\<open>d.get(key, {})\<close> followed by a \<^verbatim>\<open>.get\<close> on the result; the second argument is the
      entry that the empty dictionary has for the next key\<close>
  "get_dict v empty_entry =
     (case v of Missing \<Rightarrow> Inr empty_entry | Null \<Rightarrow> Inl AttributeError | Present d \<Rightarrow> Inr d)"

definition get_str :: "string option \<Rightarrow> string" where
  \<comment> \<open>\<^verbatim>\<open>d.get(key, "")\<close> on a leaf\<close>
  "get_str v = (case v of None \<Rightarrow> [] | Some s \<Rightarrow> s)"

definition split_T_first :: "string \<Rightarrow> string" where
  \<comment> \<open>\<^verbatim>\<open>s.split("T")[0]\<close>\<close>
  "split_T_first s = takeWhile (\<lambda>c. c \<noteq> CHR ''T'') s"

definition extract_date :: "page \<Rightarrow> py_error + string" where
  "extract_date p =
     (case get_dict (prop_Date p) Missing of Inl e \<Rightarrow> Inl e
      | Inr d \<Rightarrow> (case get_dict d None of Inl e \<Rightarrow> Inl e
      | Inr start \<Rightarrow> Inr (split_T_first (get_str start))))"

definition extract_activity_type :: "page \<Rightarrow> py_error + string" where
  "extract_activity_type p =
     (case get_dict (prop_Activity_Type p) Missing of Inl e \<Rightarrow> Inl e
      | Inr sel \<Rightarrow> (case get_dict sel None of Inl e \<Rightarrow> Inl e
      | Inr name \<Rightarrow> Inr (get_str name)))"

definition extract_activity_name :: "page \<Rightarrow> py_error + string" where
  "extract_activity_name p =
     (case get_dict (prop_Activity_Name p) Missing of Inl e \<Rightarrow> Inl e
      | Inr title \<Rightarrow>
         (case title of
            Null \<Rightarrow> Inl TypeError
          | Missing \<Rightarrow> Inr []
          | Present [] \<Rightarrow> Inl IndexError
          | Present (item # _) \<Rightarrow>
              (case get_dict item None of Inl e \<Rightarrow> Inl e
               | Inr content \<Rightarrow> Inr (get_str content))))"

definition make_unique_key :: "string \<Rightarrow> string \<Rightarrow> string \<Rightarrow> string" where
  "make_unique_key d t n = d @ ''|'' @ t @ ''|'' @ n"

definition activity_of :: "page \<Rightarrow> py_error + activity_info" where
  "activity_of p =
     (case extract_date p of Inl e \<Rightarrow> Inl e
      | Inr d \<Rightarrow> (case extract_activity_type p of Inl e \<Rightarrow> Inl e
      | Inr t \<Rightarrow> (case extract_activity_name p of Inl e \<Rightarrow> Inl e
      | Inr n \<Rightarrow> Inr \<lparr> id' = page_id p, date = d, activity_type = t, activity_name = n,
                       unique_key = make_unique_key d t n,
                       created_time = get_str (page_created_time p),
                       last_edited_time = get_str (page_last_edited_time p) \<rparr>)))"

subsection \<open>Output, input and the remote service\<close>

text \<open>
  Every \<^verbatim>\<open>print\<close> of the script is one constructor of \<open>message\<close>, carrying the values
  that the format string interpolates. A run leaves a trace: what it printed, what it
  asked and was answered, and every request it sent to the remote database together
  with the outcome of that request.
\<close>

datatype message =
    Fetching_all
  | Found_total nat
  | Duplicate_group nat string nat string string "(string \<times> string) list"
  | Summary nat nat nat
  | No_duplicates_to_remove
  | Starting_removal nat
  | Archived nat nat string string
  | Error_removing nat nat string py_error
  | Completed nat nat
  | Missing_environment
  | Banner
  | Cleanup_cancelled
  | Database_clean
  | Found_to_remove nat
  | Cleanup_completed
  | Error_during_cleanup py_error

datatype prompt = Proceed | Proceed_with_removal

datatype event =
    Print message
  | Prompt prompt
  | Answer string
  | Query string "string option"
  | Update string "py_error option"

text \<open>
  The client of the remote database is a black box with a state of its own (\<open>'w\<close>, the
  state of the service): a query and an archive request each return a result or raise,
  and may change that state.
\<close>

record 'w client =
  databases_query :: "string \<Rightarrow> string option \<Rightarrow> 'w \<Rightarrow> (py_error + response) \<times> 'w"
  pages_update_archived :: "string \<Rightarrow> 'w \<Rightarrow> py_error option \<times> 'w"

record 'w run =
  remote :: 'w
  stdin :: "string list"
  trace :: "event list"

definition emit :: "event \<Rightarrow> 'w run \<Rightarrow> 'w run" where
  "emit e s = s\<lparr> trace := trace s @ [e] \<rparr>"

definition print :: "message \<Rightarrow> 'w run \<Rightarrow> 'w run" where
  "print m s = emit (Print m) s"

subsection \<open>get_all_activities_with_duplicates\<close>

fun bucket_append :: "duplicates_map \<Rightarrow> string \<Rightarrow> activity_info \<Rightarrow> duplicates_map" where
  \<comment> \<open>\<^verbatim>\<open>duplicates_map[unique_key].append(activity_info)\<close> on a \<^verbatim>\<open>defaultdict(list)\<close>:
      a dictionary keeps its keys in the order of their first insertion\<close>
  "bucket_append [] k a = [(k, [a])]"
| "bucket_append ((k', b) # m) k a =
     (if k' = k then (k', b @ [a]) # m else (k', b) # bucket_append m k a)"

fun process_results ::
  "page list \<Rightarrow> activity_info list \<times> duplicates_map \<Rightarrow>
     py_error + (activity_info list \<times> duplicates_map)" where
  "process_results [] acc = Inr acc"
| "process_results (r # rs) (all_activities, dm) =
     (case activity_of r of
        Inl e \<Rightarrow> Inl e
      | Inr a \<Rightarrow> process_results rs (all_activities @ [a], bucket_append dm (unique_key a) a))"

text \<open>
  The pagination loop runs until the server reports no further page, which it may never
  do: the loop takes fuel, one unit per query, and \<open>None\<close> is the run that is still
  fetching when the fuel is used up.
\<close>

fun fetch_pages ::
  "nat \<Rightarrow> 'w client \<Rightarrow> string \<Rightarrow> string option \<Rightarrow> activity_info list \<times> duplicates_map \<Rightarrow>
     'w run \<Rightarrow> (py_error + (activity_info list \<times> duplicates_map)) option \<times> 'w run" where
  "fetch_pages 0 c database_id start_cursor acc s = (None, s)"
| "fetch_pages (Suc fuel) c database_id start_cursor acc s =
     (let cursor = (if truthy start_cursor then start_cursor else None);
          (r, w') = databases_query c database_id cursor (remote s);
          s1 = emit (Query database_id cursor) (s\<lparr> remote := w' \<rparr>)
      in case r of
           Inl e \<Rightarrow> (Some (Inl e), s1)
         | Inr resp \<Rightarrow>
             (case process_results (results resp) acc of
                Inl e \<Rightarrow> (Some (Inl e), s1)
              | Inr acc' \<Rightarrow>
                  if has_more resp then fetch_pages fuel c database_id (next_cursor resp) acc' s1
                  else (Some (Inr acc'), s1)))"

definition get_all_activities_with_duplicates ::
  "nat \<Rightarrow> 'w client \<Rightarrow> string \<Rightarrow> 'w run \<Rightarrow>
     (py_error + (activity_info list \<times> duplicates_map)) option \<times> 'w run" where
  "get_all_activities_with_duplicates fuel c database_id s =
     (case fetch_pages fuel c database_id None ([], []) (print Fetching_all s) of
        (Some (Inr (all_activities, dm)), s1) \<Rightarrow>
          (Some (Inr (all_activities, dm)), print (Found_total (length all_activities)) s1)
      | (r, s1) \<Rightarrow> (r, s1))"

subsection \<open>identify_duplicates\<close>

text \<open>
  \<^verbatim>\<open>list.sort(key=...)\<close> is a stable sort. \<open>sort_key\<close> is one as well, and a stable sort
  has one possible result (the library's \<open>properties_for_sort_key\<close>), so the function
  below returns the list that Python's sort leaves.
\<close>

fun identify_loop ::
  "duplicates_map \<Rightarrow> activity_info list \<times> nat \<times> nat \<Rightarrow> 'w run \<Rightarrow>
     (activity_info list \<times> nat \<times> nat) \<times> 'w run" where
  "identify_loop [] st s = (st, s)"
| "identify_loop ((key, activities) # items) (duplicates, duplicate_groups, total_duplicate_count) s =
     (if length activities > 1 then
        let groups' = duplicate_groups + 1;
            total' = total_duplicate_count + length activities;
            sorted_activities = sort_key created_time activities;
            duplicates_to_remove = drop 1 sorted_activities;
            kept = hd sorted_activities
        in identify_loop items (duplicates @ duplicates_to_remove, groups', total')
             (print (Duplicate_group groups' key (length sorted_activities) (id' kept) (created_time kept)
                       (map (\<lambda>d. (id' d, created_time d)) duplicates_to_remove)) s)
      else identify_loop items (duplicates, duplicate_groups, total_duplicate_count) s)"

definition identify_duplicates :: "duplicates_map \<Rightarrow> 'w run \<Rightarrow> activity_info list \<times> 'w run" where
  "identify_duplicates dm s =
     (case identify_loop dm ([], 0, 0) s of
        ((duplicates, duplicate_groups, total_duplicate_count), s1) \<Rightarrow>
          (duplicates, print (Summary duplicate_groups total_duplicate_count (length duplicates)) s1))"

subsection \<open>remove_duplicates\<close>

fun remove_loop ::
  "'w client \<Rightarrow> nat \<Rightarrow> nat \<Rightarrow> activity_info list \<Rightarrow> nat \<Rightarrow> 'w run \<Rightarrow> nat \<times> 'w run" where
  "remove_loop c n i [] removed_count s = (removed_count, s)"
| "remove_loop c n i (duplicate # rest) removed_count s =
     (let (r, w') = pages_update_archived c (id' duplicate) (remote s);
          s1 = emit (Update (id' duplicate) r) (s\<lparr> remote := w' \<rparr>)
      in case r of
           None \<Rightarrow>
             remove_loop c n (i + 1) rest (removed_count + 1)
               (print (Archived i n (activity_name duplicate) (date duplicate)) s1)
         | Some e \<Rightarrow>
             remove_loop c n (i + 1) rest removed_count
               (print (Error_removing i n (id' duplicate) e) s1))"

definition remove_duplicates :: "'w client \<Rightarrow> activity_info list \<Rightarrow> 'w run \<Rightarrow> 'w run" where
  "remove_duplicates c duplicates s =
     (if duplicates = [] then print No_duplicates_to_remove s
      else
        case remove_loop c (length duplicates) 1 duplicates 0
               (print (Starting_removal (length duplicates)) s) of
          (removed_count, s1) \<Rightarrow> print (Completed removed_count (length duplicates)) s1)"

subsection \<open>main\<close>

text \<open>
  \<^verbatim>\<open>str.strip()\<close> removes the white space of Python (code points 9 to 13, 28 to 32, 133
  and 160 below 256) at both ends; \<^verbatim>\<open>str.lower()\<close> maps the upper-case letters of
  ASCII and Latin-1 to lower case.
\<close>

definition py_isspace :: "char \<Rightarrow> bool" where
  "py_isspace ch =
     (let n = (of_char ch :: nat)
      in (9 \<le> n \<and> n \<le> 13) \<or> (28 \<le> n \<and> n \<le> 32) \<or> n = 133 \<or> n = 160)"

definition py_strip :: "string \<Rightarrow> string" where
  "py_strip s = rev (dropWhile py_isspace (rev (dropWhile py_isspace s)))"

definition py_lower_char :: "char \<Rightarrow> char" where
  "py_lower_char ch =
     (let n = (of_char ch :: nat)
      in if (65 \<le> n \<and> n \<le> 90) \<or> (192 \<le> n \<and> n \<le> 222 \<and> n \<noteq> 215) then char_of (n + 32) else ch)"

definition py_lower :: "string \<Rightarrow> string" where
  "py_lower s = map py_lower_char s"

definition confirmed :: "string \<Rightarrow> bool" where
  \<comment> \<open>\<^verbatim>\<open>answer.strip().lower() in ["yes", "y"]\<close>\<close>
  "confirmed answer = (py_lower (py_strip answer) \<in> set [''yes'', ''y''])"

definition input :: "prompt \<Rightarrow> 'w run \<Rightarrow> (py_error + string) \<times> 'w run" where
  \<comment> \<open>\<^verbatim>\<open>input(prompt)\<close>: writes the prompt, reads one line, raises at the end of the input\<close>
  "input p s =
     (case stdin s of
        [] \<Rightarrow> (Inl EOFError, emit (Prompt p) s)
      | line # rest \<Rightarrow> (Inr line, emit (Answer line) (emit (Prompt p) (s\<lparr> stdin := rest \<rparr>))))"

datatype outcome = Returned | Raised py_error | Still_fetching

definition main_try ::
  "nat \<Rightarrow> 'w client \<Rightarrow> string \<Rightarrow> 'w run \<Rightarrow> (py_error + unit) option \<times> 'w run" where
  \<comment> \<open>the body of the \<^verbatim>\<open>try\<close> block of \<^verbatim>\<open>main\<close>\<close>
  "main_try fuel c database_id s =
     (case get_all_activities_with_duplicates fuel c database_id s of
        (None, s1) \<Rightarrow> (None, s1)
      | (Some (Inl e), s1) \<Rightarrow> (Some (Inl e), s1)
      | (Some (Inr (all_activities, dm)), s1) \<Rightarrow>
          (case identify_duplicates dm s1 of
             (duplicates_to_remove, s2) \<Rightarrow>
               if duplicates_to_remove = [] then (Some (Inr ()), print Database_clean s2)
               else
                 (case input Proceed_with_removal
                         (print (Found_to_remove (length duplicates_to_remove)) s2) of
                    (Inl e, s3) \<Rightarrow> (Some (Inl e), s3)
                  | (Inr final_confirm, s3) \<Rightarrow>
                      if \<not> confirmed final_confirm then (Some (Inr ()), print Cleanup_cancelled s3)
                      else (Some (Inr ()),
                            print Cleanup_completed (remove_duplicates c duplicates_to_remove s3)))))"

definition main ::
  "(string \<Rightarrow> string option) \<Rightarrow> (string \<Rightarrow> 'w client) \<Rightarrow> nat \<Rightarrow> 'w run \<Rightarrow> outcome \<times> 'w run" where
  \<comment> \<open>the environment after \<^verbatim>\<open>load_dotenv()\<close>, and the constructor \<^verbatim>\<open>Client(auth=token)\<close>\<close>
  "main environ Client fuel s =
     (let notion_token = environ ''NOTION_TOKEN'';
          database_id = environ ''NOTION_DB_ID''
      in if \<not> truthy notion_token \<or> \<not> truthy database_id then (Returned, print Missing_environment s)
         else
           let c = Client (the notion_token) in
           case input Proceed (print Banner s) of
             (Inl e, s1) \<Rightarrow> (Raised e, s1)
           | (Inr confirm, s1) \<Rightarrow>
               if \<not> confirmed confirm then (Returned, print Cleanup_cancelled s1)
               else
                 (case main_try fuel c (the database_id) s1 of
                    (None, s2) \<Rightarrow> (Still_fetching, s2)
                  | (Some (Inl e), s2) \<Rightarrow> (Returned, print (Error_during_cleanup e) s2)
                  | (Some (Inr u), s2) \<Rightarrow> (Returned, s2)))"

section \<open>The session manager (garmin_session_auth.py)\<close>

subsection \<open>Time\<close>

text \<open>
  A \<^verbatim>\<open>datetime\<close> is a number of microseconds on the local clock, a \<^verbatim>\<open>timedelta\<close>
  a number of microseconds; \<^verbatim>\<open>timedelta.days\<close> rounds towards minus infinity, as
  integer division does here.
\<close>

definition timedelta_days :: "int \<Rightarrow> int" where
  "timedelta_days d = d * 86400000000"

definition days :: "int \<Rightarrow> int" where
  "days delta = delta div 86400000000"

fun str_nat :: "nat \<Rightarrow> string" where
  "str_nat n = (if n < 10 then [char_of (48 + n)] else str_nat (n div 10) @ [char_of (48 + n mod 10)])"

definition str_int :: "int \<Rightarrow> string" where
  "str_int i = (if i < 0 then CHR ''-'' # str_nat (nat (- i)) else str_nat (nat i))"

subsection \<open>Base64, as the standard library computes it\<close>

text \<open>
  \<^verbatim>\<open>base64.b64encode\<close> and \<^verbatim>\<open>base64.b64decode\<close> belong to Python's standard library,
  not to the repository. They are written out here (RFC 4648 for the encoder, the
  lenient decoder of \<^verbatim>\<open>binascii.a2b_base64\<close> for the decoder: characters outside the
  alphabet are skipped, a complete padding ends the input, an incomplete last group
  is an error), so that what the session manager does with them can be proved rather
  than assumed.
\<close>

definition b64_char :: "nat \<Rightarrow> char" where
  \<comment> \<open>the alphabet: \<^verbatim>\<open>A\<close> to \<^verbatim>\<open>Z\<close>, \<^verbatim>\<open>a\<close> to \<^verbatim>\<open>z\<close>, \<^verbatim>\<open>0\<close> to \<^verbatim>\<open>9\<close>, \<^verbatim>\<open>+\<close>, \<^verbatim>\<open>/\<close>\<close>
  "b64_char n =
     (if n < 26 then char_of (65 + n)
      else if n < 52 then char_of (71 + n)
      else if n < 62 then char_of (n - 4)
      else if n = 62 then CHR ''+''
      else CHR ''/'')"

definition b64_value :: "char \<Rightarrow> nat option" where
  "b64_value ch =
     (let n = (of_char ch :: nat)
      in if 65 \<le> n \<and> n \<le> 90 then Some (n - 65)
         else if 97 \<le> n \<and> n \<le> 122 then Some (n - 71)
         else if 48 \<le> n \<and> n \<le> 57 then Some (n + 4)
         else if n = 43 then Some 62
         else if n = 47 then Some 63
         else None)"

fun b64encode :: "string \<Rightarrow> string" where
  "b64encode [] = []"
| "b64encode [a] =
     (let x = (of_char a :: nat)
      in [b64_char (x div 4), b64_char ((x mod 4) * 16), CHR ''='', CHR ''=''])"
| "b64encode [a, b] =
     (let x = (of_char a :: nat); y = (of_char b :: nat)
      in [b64_char (x div 4), b64_char ((x mod 4) * 16 + y div 16), b64_char ((y mod 16) * 4),
          CHR ''=''])"
| "b64encode (a # b # c # rest) =
     (let x = (of_char a :: nat); y = (of_char b :: nat); z = (of_char c :: nat)
      in [b64_char (x div 4), b64_char ((x mod 4) * 16 + y div 16),
          b64_char ((y mod 16) * 4 + z div 64), b64_char (z mod 64)] @ b64encode rest)"

fun a2b_base64 :: "string \<Rightarrow> nat \<Rightarrow> nat \<Rightarrow> nat \<Rightarrow> string \<Rightarrow> py_error + string" where
  "a2b_base64 [] quad_pos leftchar pads out = (if quad_pos \<noteq> 0 then Inl Base64Error else Inr out)"
| "a2b_base64 (ch # rest) quad_pos leftchar pads out =
     (if ch = CHR ''='' then
        (if quad_pos \<ge> 2 \<and> quad_pos + (pads + 1) \<ge> 4 then Inr out
         else a2b_base64 rest quad_pos leftchar (if quad_pos \<ge> 2 then pads + 1 else pads) out)
      else
        case b64_value ch of
          None \<Rightarrow> a2b_base64 rest quad_pos leftchar pads out
        | Some v \<Rightarrow>
            if quad_pos = 0 then a2b_base64 rest 1 v 0 out
            else if quad_pos = 1 then
              a2b_base64 rest 2 (v mod 16) 0 (out @ [char_of (leftchar * 4 + v div 16)])
            else if quad_pos = 2 then
              a2b_base64 rest 3 (v mod 4) 0 (out @ [char_of (leftchar * 16 + v div 4)])
            else a2b_base64 rest 0 0 0 (out @ [char_of (leftchar * 64 + v)]))"

definition b64decode :: "string \<Rightarrow> py_error + string" where
  \<comment> \<open>the argument is a \<^verbatim>\<open>str\<close>: it must be ASCII, then it is decoded leniently\<close>
  "b64decode s =
     (if \<exists>ch \<in> set s. (of_char ch :: nat) \<ge> 128
      then Inl (ValueError ''string argument should contain only ASCII characters'')
      else a2b_base64 s 0 0 0 [])"

subsection \<open>The platform and the state of a run\<close>

text \<open>
  What the session manager cannot decide is a parameter, the \<open>platform\<close>: the
  environment variables, the clock (\<open>clock n\<close> is what the \<open>n\<close>-th call of
  \<^verbatim>\<open>datetime.now()\<close> returns), the operating system (\<open>os_fault n\<close> is the error, if
  any, with which the \<open>n\<close>-th call that opens, writes or changes a file or directory
  fails, \<open>os_partial n\<close> the number of bytes a failing write leaves in the file,
  \<open>create_mode\<close> the mode of a file it creates), \<^verbatim>\<open>pickle\<close>, and the Garmin library
  with the remote service behind it. The tokens of a \<^verbatim>\<open>garth\<close> session are
  represented by the string that \<^verbatim>\<open>garth.dumps()\<close> returns for them.
\<close>

record session_data =
  session :: string
  timestamp :: int
  session_email :: "string option"

record platform =
  getenv :: "string \<Rightarrow> string option"
  clock :: "nat \<Rightarrow> int"
  os_fault :: "nat \<Rightarrow> py_error option"
  os_partial :: "nat \<Rightarrow> nat"
  create_mode :: nat
  pickle_dumps :: "session_data \<Rightarrow> string"
  pickle_loads :: "string \<Rightarrow> py_error + session_data"
  garth_loads :: "string \<Rightarrow> py_error option"
  get_full_name :: "string \<Rightarrow> py_error + string"
  garmin_login :: "string \<Rightarrow> string \<Rightarrow> py_error + string"

record stored_file =
  contents :: string
  mode :: nat

definition mode_0o600 :: nat where
  \<comment> \<open>octal 600: the owner may read and write, nobody else may do anything\<close>
  "mode_0o600 = 6 * 64"

datatype notice =
    Loading_existing_session
  | Session_login_failed py_error
  | Attempting_fresh_login
  | Session_valid int
  | Performing_fresh_login
  | Session_saved
  | Could_not_save_session py_error
  | Export_rule
  | Export_title
  | Export_instructions
  | Export_payload string
  | Session_imported
  | Using_session_from_github

datatype action =
    Printed notice
  | Probe_call string
  | Login_call string string

record state =
  ticks :: nat
  os_calls :: nat
  session_file :: "stored_file option"
  actions :: "action list"

datatype garmin_client = Garmin (credentials: "string option \<times> string option") (garth: "string option")

record garmin_session_auth =
  email :: "string option"
  password :: "string option"
  garmin :: "garmin_client option"

definition act :: "action \<Rightarrow> state \<Rightarrow> state" where
  "act a st = st\<lparr> actions := actions st @ [a] \<rparr>"

definition say :: "notice \<Rightarrow> state \<Rightarrow> state" where
  \<comment> \<open>\<^verbatim>\<open>print\<close>\<close>
  "say n st = act (Printed n) st"

definition datetime_now :: "platform \<Rightarrow> state \<Rightarrow> int \<times> state" where
  "datetime_now pf st = (clock pf (ticks st), st\<lparr> ticks := ticks st + 1 \<rparr>)"

definition os_call :: "platform \<Rightarrow> state \<Rightarrow> py_error option \<times> state" where
  "os_call pf st = (os_fault pf (os_calls st), st\<lparr> os_calls := os_calls st + 1 \<rparr>)"

definition file_exists :: "state \<Rightarrow> bool" where
  \<comment> \<open>\<^verbatim>\<open>self.session_file.exists()\<close>\<close>
  "file_exists st = (session_file st \<noteq> None)"

definition read_file :: "platform \<Rightarrow> state \<Rightarrow> (py_error + string) \<times> state" where
  \<comment> \<open>\<^verbatim>\<open>open(self.session_file, "rb")\<close> and reading all of it\<close>
  "read_file pf st =
     (case os_call pf st of
        (Some e, st1) \<Rightarrow> (Inl e, st1)
      | (None, st1) \<Rightarrow>
          (case session_file st1 of
             None \<Rightarrow> (Inl (OSError ''FileNotFoundError''), st1)
           | Some f \<Rightarrow> (Inr (contents f), st1)))"

definition open_wb :: "platform \<Rightarrow> state \<Rightarrow> py_error option \<times> state" where
  \<comment> \<open>\<^verbatim>\<open>open(self.session_file, "wb")\<close>: creates the file or empties it\<close>
  "open_wb pf st =
     (case os_call pf st of
        (Some e, st1) \<Rightarrow> (Some e, st1)
      | (None, st1) \<Rightarrow>
          (None, st1\<lparr> session_file :=
             Some \<lparr> contents = [],
                    mode = (case session_file st1 of None \<Rightarrow> create_mode pf | Some f \<Rightarrow> mode f) \<rparr> \<rparr>))"

definition write_file :: "platform \<Rightarrow> string \<Rightarrow> state \<Rightarrow> py_error option \<times> state" where
  \<comment> \<open>writing to the file that \<open>open_wb\<close> opened, and closing it\<close>
  "write_file pf bytes st =
     (let n = os_calls st
      in case os_call pf st of
           (r, st1) \<Rightarrow>
             (r, st1\<lparr> session_file :=
                   map_option (\<lambda>f. f\<lparr> contents := (case r of None \<Rightarrow> bytes
                                                      | Some e \<Rightarrow> take (os_partial pf n) bytes) \<rparr>)
                     (session_file st1) \<rparr>))"

definition chmod :: "platform \<Rightarrow> nat \<Rightarrow> state \<Rightarrow> py_error option \<times> state" where
  \<comment> \<open>\<^verbatim>\<open>os.chmod(self.session_file, m)\<close>\<close>
  "chmod pf m st =
     (case os_call pf st of
        (Some e, st1) \<Rightarrow> (Some e, st1)
      | (None, st1) \<Rightarrow>
          (case session_file st1 of
             None \<Rightarrow> (Some (OSError ''FileNotFoundError''), st1)
           | Some f \<Rightarrow> (None, st1\<lparr> session_file := Some (f\<lparr> mode := m \<rparr>) \<rparr>)))"

subsection \<open>GarminSessionAuth\<close>

definition py_or :: "string option \<Rightarrow> string option \<Rightarrow> string option" where
  \<comment> \<open>\<^verbatim>\<open>a or b\<close>\<close>
  "py_or a b = (if truthy a then a else b)"

definition init ::
  "platform \<Rightarrow> string option \<Rightarrow> string option \<Rightarrow> state \<Rightarrow> (py_error + garmin_session_auth) \<times> state" where
  \<comment> \<open>\<^verbatim>\<open>__init__\<close>; the last statement creates the session directory\<close>
  "init pf email_arg password_arg st =
     (let self = \<lparr> email = py_or email_arg (getenv pf ''GARMIN_EMAIL''),
                   password = py_or password_arg (getenv pf ''GARMIN_PASSWORD''),
                   garmin = None \<rparr>
      in case os_call pf st of
           (Some e, st1) \<Rightarrow> (Inl e, st1)
         | (None, st1) \<Rightarrow> (Inr self, st1))"

definition save_session' :: "platform \<Rightarrow> garmin_session_auth \<Rightarrow> state \<Rightarrow> py_error option \<times> state" where
  \<comment> \<open>the body of the \<^verbatim>\<open>try\<close> block of \<^verbatim>\<open>_save_session\<close>\<close>
  "save_session' pf self st =
     (case (case garmin self of None \<Rightarrow> None | Some g \<Rightarrow> garth g) of
        None \<Rightarrow> (Some AttributeError, st)
      | Some tokens \<Rightarrow>
          (case datetime_now pf st of
             (now, st1) \<Rightarrow>
               (let session_data = \<lparr> session = tokens, timestamp = now, session_email = email self \<rparr>
                in (case open_wb pf st1 of
                      (Some e, st2) \<Rightarrow> (Some e, st2)
                    | (None, st2) \<Rightarrow>
                        (case write_file pf (pickle_dumps pf session_data) st2 of
                           (Some e, st3) \<Rightarrow> (Some e, st3)
                         | (None, st3) \<Rightarrow>
                             (case chmod pf mode_0o600 st3 of
                                (Some e, st4) \<Rightarrow> (Some e, st4)
                              | (None, st4) \<Rightarrow> (None, say Session_saved st4)))))))"

definition save_session :: "platform \<Rightarrow> garmin_session_auth \<Rightarrow> state \<Rightarrow> state" where
  \<comment> \<open>\<^verbatim>\<open>_save_session\<close>\<close>
  "save_session pf self st =
     (case save_session' pf self st of
        (None, st1) \<Rightarrow> st1
      | (Some e, st1) \<Rightarrow> say (Could_not_save_session e) st1)"

definition fresh_login ::
  "platform \<Rightarrow> garmin_session_auth \<Rightarrow> state \<Rightarrow> (py_error + garmin_client) \<times> garmin_session_auth \<times> state" where
  \<comment> \<open>\<^verbatim>\<open>_fresh_login\<close>\<close>
  "fresh_login pf self st =
     (if \<not> truthy (email self) \<or> \<not> truthy (password self)
      then (Inl (ValueError ''Email and password required for fresh login''), self, st)
      else
        let st1 = say Performing_fresh_login st;
            self1 = self\<lparr> garmin := Some (Garmin (email self, password self) None) \<rparr>;
            st2 = act (Login_call (the (email self)) (the (password self))) st1
        in case garmin_login pf (the (email self)) (the (password self)) of
             Inl e \<Rightarrow> (Inl e, self1, st2)
           | Inr tokens \<Rightarrow>
               let self2 = self\<lparr> garmin := Some (Garmin (email self, password self) (Some tokens)) \<rparr>
               in (Inr (Garmin (email self, password self) (Some tokens)), self2,
                   save_session pf self2 st2))"

definition login_with_session ::
  "platform \<Rightarrow> garmin_session_auth \<Rightarrow> state \<Rightarrow> (py_error + garmin_client) \<times> garmin_session_auth \<times> state" where
  \<comment> \<open>\<^verbatim>\<open>_login_with_session\<close>\<close>
  "login_with_session pf self st =
     (case read_file pf (say Loading_existing_session st) of
        (Inl e, st1) \<Rightarrow> (Inl e, self, st1)
      | (Inr bytes, st1) \<Rightarrow>
          (case pickle_loads pf bytes of
             Inl e \<Rightarrow> (Inl e, self, st1)
           | Inr session_data \<Rightarrow>
               (case datetime_now pf st1 of
                  (now, st2) \<Rightarrow>
                    (let session_age = now - timestamp session_data
                     in (if session_age > timedelta_days 360
                         then (Inl (Exception' (''Session too old ('' @ str_int (days session_age) @ '' days)'')),
                               self, st2)
                         else
                           (let self1 = self\<lparr> garmin := Some (Garmin (None, None) None) \<rparr>
                            in (case garth_loads pf (session session_data) of
                                  Some e \<Rightarrow> (Inl e, self1, st2)
                                | None \<Rightarrow>
                                    (let client = Garmin (None, None) (Some (session session_data));
                                         self2 = self\<lparr> garmin := Some client \<rparr>;
                                         st3 = act (Probe_call (session session_data)) st2
                                     in (case get_full_name pf (session session_data) of
                                           Inr name \<Rightarrow>
                                             (Inr client, self2, say (Session_valid (days session_age)) st3)
                                         | Inl e \<Rightarrow>
                                             (if e = GarminConnectAuthenticationError
                                              then (Inl (Exception' ''Session expired or invalid''), self2, st3)
                                              else (Inl e, self2, st3)))))))))))"

definition login ::
  "platform \<Rightarrow> garmin_session_auth \<Rightarrow> bool \<Rightarrow> state \<Rightarrow> (py_error + garmin_client) \<times> garmin_session_auth \<times> state" where
  "login pf self force_refresh st =
     (if \<not> force_refresh \<and> file_exists st then
        (case login_with_session pf self st of
           (Inr client, self1, st1) \<Rightarrow> (Inr client, self1, st1)
         | (Inl e, self1, st1) \<Rightarrow>
             fresh_login pf self1 (say Attempting_fresh_login (say (Session_login_failed e) st1)))
      else fresh_login pf self st)"

definition export_session_for_github ::
  "platform \<Rightarrow> garmin_session_auth \<Rightarrow> state \<Rightarrow> (py_error + string) \<times> state" where
  "export_session_for_github pf self st =
     (if \<not> file_exists st then (Inl (Exception' ''No session file exists. Login first.''), st)
      else
        case read_file pf st of
          (Inl e, st1) \<Rightarrow> (Inl e, st1)
        | (Inr session_bytes, st1) \<Rightarrow>
            let session_b64 = b64encode session_bytes
            in (Inr session_b64,
                say Export_rule (say (Export_payload session_b64) (say Export_instructions
                  (say Export_rule (say Export_title (say Export_rule st1)))))))"

definition import_session_from_github ::
  "platform \<Rightarrow> garmin_session_auth \<Rightarrow> string \<Rightarrow> state \<Rightarrow> py_error option \<times> state" where
  "import_session_from_github pf self session_b64 st =
     (case b64decode session_b64 of
        Inl e \<Rightarrow> (Some e, st)
      | Inr session_bytes \<Rightarrow>
          (case open_wb pf st of
             (Some e, st1) \<Rightarrow> (Some e, st1)
           | (None, st1) \<Rightarrow>
               (case write_file pf session_bytes st1 of
                  (Some e, st2) \<Rightarrow> (Some e, st2)
                | (None, st2) \<Rightarrow>
                    (case chmod pf mode_0o600 st2 of
                       (Some e, st3) \<Rightarrow> (Some e, st3)
                     | (None, st3) \<Rightarrow> (None, say Session_imported st3)))))"

definition get_garmin_client ::
  "platform \<Rightarrow> state \<Rightarrow> (py_error + garmin_client) \<times> state" where
  "get_garmin_client pf st =
     (let github_session = getenv pf ''GARMIN_SESSION''
      in case init pf None None st of
           (Inl e, st1) \<Rightarrow> (Inl e, st1)
         | (Inr auth, st1) \<Rightarrow>
             (case (if truthy github_session
                    then import_session_from_github pf auth (the github_session)
                           (say Using_session_from_github st1)
                    else (None, st1)) of
                (Some e, st2) \<Rightarrow> (Inl e, st2)
              | (None, st2) \<Rightarrow>
                  (case login pf auth False st2 of (r, self1, st3) \<Rightarrow> (r, st3))))"


section \<open>The vocabulary of the properties, and example runs\<close>

subsection \<open>Fetched records by position\<close>

text \<open>
  A fetched record is a position of the list \<^verbatim>\<open>all_activities\<close>: the order of the list
  is the order of the fetch. \<open>sorts_before acts j i\<close> says that record \<open>j\<close> comes before
  record \<open>i\<close> when records are ordered by creation time, the fetch order breaking ties.
\<close>

definition same_key :: "activity_info list \<Rightarrow> nat \<Rightarrow> nat \<Rightarrow> bool" where
  "same_key acts j i = (unique_key (acts ! j) = unique_key (acts ! i))"

definition sorts_before :: "activity_info list \<Rightarrow> nat \<Rightarrow> nat \<Rightarrow> bool" where
  "sorts_before acts j i =
     (created_time (acts ! j) < created_time (acts ! i) \<or>
      (created_time (acts ! j) = created_time (acts ! i) \<and> j < i))"

definition grouped :: "activity_info list \<Rightarrow> duplicates_map \<Rightarrow> bool" where
  \<comment> \<open>what the fetch loop maintains: one bucket per key that occurs, holding the records
      of that key in fetch order\<close>
  "grouped acts dm =
     (distinct (map fst dm) \<and> set (map fst dm) = unique_key ` set acts \<and>
      (\<forall>(k, b) \<in> set dm. b = filter (\<lambda>a. unique_key a = k) acts))"

subsection \<open>Reading a trace\<close>

fun updates :: "event list \<Rightarrow> (string \<times> py_error option) list" where
  \<comment> \<open>the archive requests of a trace, each with its outcome (\<open>None\<close>: it succeeded)\<close>
  "updates [] = []"
| "updates (Update i r # es) = (i, r) # updates es"
| "updates (e # es) = updates es"

fun reports :: "event list \<Rightarrow> (nat \<times> nat) list" where
  \<comment> \<open>the final counts that a trace reports: successes and attempted total\<close>
  "reports [] = []"
| "reports (Print (Completed a b) # es) = (a, b) # reports es"
| "reports (e # es) = reports es"

fun answers :: "event list \<Rightarrow> string list" where
  \<comment> \<open>what the user answered, in order\<close>
  "answers [] = []"
| "answers (Answer a # es) = a # answers es"
| "answers (e # es) = answers es"

fun queries :: "event list \<Rightarrow> (string \<times> string option) list" where
  \<comment> \<open>the queries sent to the database, in order\<close>
  "queries [] = []"
| "queries (Query d c # es) = (d, c) # queries es"
| "queries (e # es) = queries es"

definition succeeded :: "(string \<times> py_error option) list \<Rightarrow> nat" where
  "succeeded rs = length (filter (\<lambda>r. snd r = None) rs)"

subsection \<open>Example databases\<close>

definition example_page :: "string \<Rightarrow> string \<Rightarrow> string \<Rightarrow> string \<Rightarrow> page" where
  "example_page i d n t =
     \<lparr> page_id = i,
       prop_Date = Present (Present (Some d)),
       prop_Activity_Type = Present (Present (Some ''Run'')),
       prop_Activity_Name = Present (Present [Present (Some n)]),
       page_created_time = Some t,
       page_last_edited_time = Some t \<rparr>"

definition example_activity :: "string \<Rightarrow> string \<Rightarrow> string \<Rightarrow> string \<Rightarrow> activity_info" where
  "example_activity i d n t =
     \<lparr> id' = i, date = d, activity_type = ''Run'', activity_name = n,
       unique_key = d @ ''|Run|'' @ n, created_time = t, last_edited_time = t \<rparr>"

definition example_client :: "page list \<Rightarrow> page list \<Rightarrow> nat client" where
  \<comment> \<open>a database of two pages of results, which refuses to archive the record \<open>p2\<close>; the
      state of the service counts the requests it has served\<close>
  "example_client first_page second_page =
     \<lparr> databases_query = (\<lambda>db cursor w.
          (if cursor = None
           then Inr \<lparr> results = first_page, has_more = True, next_cursor = Some ''c1'' \<rparr>
           else Inr \<lparr> results = second_page, has_more = False, next_cursor = None \<rparr>, w + 1)),
       pages_update_archived = (\<lambda>pid w.
          (if pid = ''p2'' then Some (LibraryError ''conflict'') else None, w + 1)) \<rparr>"

definition example_run :: "string list \<Rightarrow> nat run" where
  "example_run lines = \<lparr> remote = 0, stdin = lines, trace = [] \<rparr>"

definition example_environ :: "string \<Rightarrow> string option" where
  "example_environ = map_of [(''NOTION_TOKEN'', ''secret''), (''NOTION_DB_ID'', ''db'')]"

definition scenario_client :: "nat client" where
  \<comment> \<open>the three records of the specification's scenario\<close>
  "scenario_client =
     example_client
       [example_page ''p1'' ''2024-01-01T07:00:00'' ''Morning Run'' ''t1'',
        example_page ''p2'' ''2024-01-01T07:00:00'' ''Morning Run'' ''t2'']
       [example_page ''p3'' ''2024-01-02T19:00:00'' ''Evening Run'' ''t3'']"

definition scenario_activities :: "activity_info list" where
  "scenario_activities =
     [example_activity ''p1'' ''2024-01-01'' ''Morning Run'' ''t1'',
      example_activity ''p2'' ''2024-01-01'' ''Morning Run'' ''t2'',
      example_activity ''p3'' ''2024-01-02'' ''Evening Run'' ''t3'']"

definition scenario_map :: duplicates_map where
  "scenario_map =
     [(''2024-01-01|Run|Morning Run'',
        [example_activity ''p1'' ''2024-01-01'' ''Morning Run'' ''t1'',
         example_activity ''p2'' ''2024-01-01'' ''Morning Run'' ''t2'']),
      (''2024-01-02|Run|Evening Run'',
        [example_activity ''p3'' ''2024-01-02'' ''Evening Run'' ''t3''])]"

definition late_tie_client :: "nat client" where
  \<comment> \<open>three copies of one activity; the second and the third were created at the same
      time, after the first\<close>
  "late_tie_client =
     example_client
       [example_page ''p1'' ''2024-01-01'' ''Morning Run'' ''t1'',
        example_page ''p2'' ''2024-01-01'' ''Morning Run'' ''t2'']
       [example_page ''p3'' ''2024-01-01'' ''Morning Run'' ''t2'']"

definition late_tie_activities :: "activity_info list" where
  "late_tie_activities =
     [example_activity ''p1'' ''2024-01-01'' ''Morning Run'' ''t1'',
      example_activity ''p2'' ''2024-01-01'' ''Morning Run'' ''t2'',
      example_activity ''p3'' ''2024-01-01'' ''Morning Run'' ''t2'']"

definition early_tie_client :: "nat client" where
  \<comment> \<open>three copies of one activity; the first and the second were created at the same
      time, before the third\<close>
  "early_tie_client =
     example_client
       [example_page ''p1'' ''2024-01-01'' ''Morning Run'' ''t1'',
        example_page ''p2'' ''2024-01-01'' ''Morning Run'' ''t1'']
       [example_page ''p3'' ''2024-01-01'' ''Morning Run'' ''t2'']"

definition early_tie_activities :: "activity_info list" where
  "early_tie_activities =
     [example_activity ''p1'' ''2024-01-01'' ''Morning Run'' ''t1'',
      example_activity ''p2'' ''2024-01-01'' ''Morning Run'' ''t1'',
      example_activity ''p3'' ''2024-01-01'' ''Morning Run'' ''t2'']"

definition one_bucket :: "activity_info list \<Rightarrow> duplicates_map" where
  "one_bucket acts = [(''2024-01-01|Run|Morning Run'', acts)]"

subsection \<open>Reading the actions of the session manager\<close>

fun probes :: "action list \<Rightarrow> string list" where
  \<comment> \<open>the liveness probes among the actions of a run, each with the session it tested\<close>
  "probes [] = []"
| "probes (Probe_call b # as) = b # probes as"
| "probes (a # as) = probes as"

subsection \<open>An example platform\<close>

definition example_platform :: platform where
  \<comment> \<open>the clock shows 400 days after time 0; the operating system never fails; the file
      \<^verbatim>\<open>old\<close> unpickles to a session stored at time 0, the file \<^verbatim>\<open>recent\<close> to one
      stored 100 days later; the service accepts every session and the password \<^verbatim>\<open>secret\<close>\<close>
  "example_platform =
     \<lparr> getenv = map_of [(''GARMIN_EMAIL'', ''runner@example.org''), (''GARMIN_PASSWORD'', ''secret'')],
       clock = (\<lambda>n. timedelta_days 400 + int n),
       os_fault = (\<lambda>n. None),
       os_partial = (\<lambda>n. 0),
       create_mode = 420,
       pickle_dumps = (\<lambda>sd. ''session='' @ session sd @ '';timestamp='' @ str_int (timestamp sd) @
                           '';email='' @ get_str (session_email sd)),
       pickle_loads = (\<lambda>bytes.
          if bytes = ''old''
          then Inr \<lparr> session = ''old-tokens'', timestamp = 0,
                     session_email = Some ''runner@example.org'' \<rparr>
          else if bytes = ''recent''
          then Inr \<lparr> session = ''recent-tokens'', timestamp = timedelta_days 100,
                     session_email = Some ''runner@example.org'' \<rparr>
          else Inl UnpicklingError),
       garth_loads = (\<lambda>tokens. None),
       get_full_name = (\<lambda>tokens. Inr ''Runner''),
       garmin_login = (\<lambda>e p. if p = ''secret'' then Inr ''fresh-tokens''
                              else Inl GarminConnectAuthenticationError) \<rparr>"


definition example_state :: "stored_file option \<Rightarrow> state" where
  "example_state f = \<lparr> ticks = 0, os_calls = 0, session_file = f, actions = [] \<rparr>"

definition example_auth :: garmin_session_auth where
  "example_auth = \<lparr> email = Some ''runner@example.org'', password = Some ''secret'', garmin = None \<rparr>"


definition old_file :: stored_file where
  "old_file = \<lparr> contents = ''old'', mode = 420 \<rparr>"

definition recent_file :: stored_file where
  "recent_file = \<lparr> contents = ''recent'', mode = 420 \<rparr>"


section \<open>Properties of the duplicate resolver\<close>

subsection \<open>Stable sorting and the buckets of the fetch\<close>


lemma insort_key_map: "insort_key f (g x) (map g xs) = map g (insort_key (\<lambda>y. f (g y)) x xs)"
  by (induction xs) auto

lemma sort_key_map: "sort_key f (map g xs) = map g (sort_key (\<lambda>y. f (g y)) xs)"
  by (induction xs) (auto simp: insort_key_map)

lemma filter_as_nths: "filter P xs = map ((!) xs) (filter (\<lambda>i. P (xs ! i)) [0..<length xs])"
proof (induction xs rule: rev_induct)
  case Nil
  then show ?case by simp
next
  case (snoc x xs)
  have "filter (\<lambda>i. P ((xs @ [x]) ! i)) [0..<length xs] = filter (\<lambda>i. P (xs ! i)) [0..<length xs]"
    by (rule filter_cong) (auto simp: nth_append)
  moreover have "map ((!) (xs @ [x])) (filter (\<lambda>i. P (xs ! i)) [0..<length xs])
      = map ((!) xs) (filter (\<lambda>i. P (xs ! i)) [0..<length xs])"
    by (rule map_cong) (auto simp: nth_append)
  ultimately show ?case using snoc by (simp add: nth_append)
qed

lemma hd_insort_key: "hd (insort_key f x ys) = (if ys = [] \<or> f x \<le> f (hd ys) then x else hd ys)"
  by (cases ys) auto

lemma hd_sort_key_least:
  fixes f :: "nat \<Rightarrow> 'k::linorder"
  assumes "sorted_wrt (<) js" "js \<noteq> []"
  shows "hd (sort_key f js) \<in> set js \<and>
         (\<forall>j\<in>set js. f (hd (sort_key f js)) < f j \<or> (f (hd (sort_key f js)) = f j \<and> hd (sort_key f js) \<le> j))"
  using assms
proof (induction js)
  case Nil
  then show ?case by simp
next
  case (Cons x xs)
  show ?case
  proof (cases "xs = []")
    case True
    then show ?thesis by simp
  next
    case False
    with Cons have IH: "hd (sort_key f xs) \<in> set xs"
      "\<forall>j\<in>set xs. f (hd (sort_key f xs)) < f j \<or> (f (hd (sort_key f xs)) = f j \<and> hd (sort_key f xs) \<le> j)"
      by auto
    have lt: "\<forall>j\<in>set xs. x < j" using Cons.prems by simp
    have ne: "sort_key f xs \<noteq> []" using False by (metis length_sort length_0_conv)
    show ?thesis
      using IH lt ne False by (auto simp: hd_insort_key dest: less_imp_le)
  qed
qed

lemma set_drop1_distinct: "distinct xs \<Longrightarrow> xs \<noteq> [] \<Longrightarrow> set (drop 1 xs) = set xs - {hd xs}"
  by (cases xs) auto



lemma bucket_append_keys:
  "map fst (bucket_append dm k a) = (if k \<in> set (map fst dm) then map fst dm else map fst dm @ [k])"
  by (induction dm k a rule: bucket_append.induct) auto

lemma bucket_append_mem:
  "(k', b') \<in> set (bucket_append dm k a) \<Longrightarrow> distinct (map fst dm) \<Longrightarrow>
     (k' = k \<and> ((k \<notin> fst ` set dm \<and> b' = [a]) \<or> (\<exists>b. (k, b) \<in> set dm \<and> b' = b @ [a])))
     \<or> (k' \<noteq> k \<and> (k', b') \<in> set dm)"
proof (induction dm k a rule: bucket_append.induct)
  case (1 k a)
  then show ?case by simp
next
  case (2 k0 b0 m k a)
  show ?case
  proof (cases "k0 = k")
    case True
    with 2 show ?thesis by (auto simp: image_iff)
  next
    case False
    with 2 show ?thesis by (auto simp: image_iff)
  qed
qed

lemma grouped_bucket_append:
  assumes "grouped acts dm"
  shows "grouped (acts @ [a]) (bucket_append dm (unique_key a) a)"
proof -
  from assms have d: "distinct (map fst dm)" and k: "set (map fst dm) = unique_key ` set acts"
    and b: "\<And>k b. (k, b) \<in> set dm \<Longrightarrow> b = filter (\<lambda>a. unique_key a = k) acts"
    by (auto simp: grouped_def)
  have 1: "distinct (map fst (bucket_append dm (unique_key a) a))"
    using d by (simp add: bucket_append_keys)
  have 2: "set (map fst (bucket_append dm (unique_key a) a)) = unique_key ` set (acts @ [a])"
    using k by (auto simp: bucket_append_keys)
  have 3: "b' = filter (\<lambda>x. unique_key x = k') (acts @ [a])"
    if "(k', b') \<in> set (bucket_append dm (unique_key a) a)" for k' b'
  proof -
    from bucket_append_mem[OF that d] consider
        (new) "k' = unique_key a" "unique_key a \<notin> fst ` set dm" "b' = [a]"
      | (old) b0 where "k' = unique_key a" "(unique_key a, b0) \<in> set dm" "b' = b0 @ [a]"
      | (other) "k' \<noteq> unique_key a" "(k', b') \<in> set dm"
      by blast
    then show ?thesis
    proof cases
      case new
      have "unique_key x \<noteq> unique_key a" if "x \<in> set acts" for x
      proof
        assume e: "unique_key x = unique_key a"
        have "unique_key x \<in> unique_key ` set acts" using that by (rule imageI)
        with e k new(2) show False by simp
      qed
      then have "filter (\<lambda>x. unique_key x = unique_key a) acts = []"
        by (simp add: filter_empty_conv)
      with new show ?thesis by simp
    next
      case old
      from b[OF old(2)] old show ?thesis by simp
    next
      case other
      from b[OF other(2)] other show ?thesis by simp
    qed
  qed
  show ?thesis unfolding grouped_def using 1 2 3 by blast
qed

lemma grouped_process_results:
  "process_results rs (acts, dm) = Inr (acts', dm') \<Longrightarrow> grouped acts dm \<Longrightarrow> grouped acts' dm'"
proof (induction rs arbitrary: acts dm)
  case Nil
  then show ?case by simp
next
  case (Cons r rs)
  then show ?case
    by (auto split: sum.splits dest: grouped_bucket_append)
qed

lemma grouped_fetch_pages:
  "fetch_pages fuel c db cur (acts, dm) s = (Some (Inr (acts', dm')), s') \<Longrightarrow> grouped acts dm
     \<Longrightarrow> grouped acts' dm'"
proof (induction fuel arbitrary: cur acts dm s)
  case 0
  then show ?case by simp
next
  case (Suc fuel)
  then show ?case
    by (auto simp: Let_def split: prod.splits sum.splits if_splits dest: grouped_process_results)
qed

lemma grouped_get_all:
  assumes "get_all_activities_with_duplicates fuel c db s = (Some (Inr (acts, dm)), s')"
  shows "grouped acts dm"
proof -
  have g0: "grouped [] []" by (simp add: grouped_def)
  from assms obtain s1 where "fetch_pages fuel c db None ([], []) (print Fetching_all s) = (Some (Inr (acts, dm)), s1)"
    by (auto simp: get_all_activities_with_duplicates_def split: prod.splits option.splits sum.splits)
  from grouped_fetch_pages[OF this g0] show ?thesis .
qed



lemma drop1_sort_short: "length b \<le> 1 \<Longrightarrow> drop 1 (sort_key f b) = []"
  by simp

lemma identify_loop_duplicates:
  "fst (fst (identify_loop dm (d, g, t) s)) =
     d @ concat (map (\<lambda>(k, b). drop 1 (sort_key created_time b)) dm)"
proof (induction dm arbitrary: d g t s)
  case Nil
  then show ?case by simp
next
  case (Cons kb dm)
  obtain k b where kb: "kb = (k, b)" by (cases kb)
  show ?case
  proof (cases "length b > 1")
    case True
    then show ?thesis using Cons kb by (simp add: Let_def)
  next
    case False
    then have "drop 1 (sort_key created_time b) = []" by simp
    then show ?thesis using Cons kb False by simp
  qed
qed

lemma identify_duplicates_concat:
  "fst (identify_duplicates dm s) = concat (map (\<lambda>(k, b). drop 1 (sort_key created_time b)) dm)"
proof -
  obtain d g t s1 where e: "identify_loop dm ([], 0, 0) s = ((d, g, t), s1)"
    by (metis prod.exhaust)
  from identify_loop_duplicates[of dm "[]" 0 0 s] e
  have "d = concat (map (\<lambda>(k, b). drop 1 (sort_key created_time b)) dm)" by simp
  with e show ?thesis by (simp add: identify_duplicates_def)
qed

lemma grouped_dm:
  assumes "grouped acts dm"
  shows "dm = map (\<lambda>k. (k, filter (\<lambda>a. unique_key a = k) acts)) (map fst dm)"
proof -
  have "map (\<lambda>x. (fst x, filter (\<lambda>a. unique_key a = fst x) acts)) dm = map (\<lambda>x. x) dm"
    by (rule map_cong) (use assms in \<open>auto simp: grouped_def\<close>)
  then show ?thesis by (simp add: comp_def)
qed

lemma in_drop1_sort_key:
  fixes f :: "nat \<Rightarrow> 'k::linorder"
  assumes "sorted_wrt (<) js"
  shows "i \<in> set (drop 1 (sort_key f js)) \<longleftrightarrow>
         i \<in> set js \<and> (\<exists>j\<in>set js. j \<noteq> i \<and> (f j < f i \<or> (f j = f i \<and> j < i)))"
proof (cases "js = []")
  case True
  then show ?thesis by simp
next
  case False
  let ?m = "hd (sort_key f js)"
  have d: "distinct js" using assms by (simp add: strict_sorted_iff distinct_conv_nth sorted_wrt_iff_nth_less)
      (metis nat_neq_iff)
  have ne: "sort_key f js \<noteq> []" using False by (metis length_sort length_0_conv)
  have s: "set (drop 1 (sort_key f js)) = set js - {?m}"
    using set_drop1_distinct[of "sort_key f js"] d ne by simp
  from hd_sort_key_least[OF assms False, of f]
  have m: "?m \<in> set js" and least: "\<And>j. j \<in> set js \<Longrightarrow> f ?m < f j \<or> (f ?m = f j \<and> ?m \<le> j)"
    by auto
  show ?thesis
  proof
    assume "i \<in> set (drop 1 (sort_key f js))"
    with s have i: "i \<in> set js" "i \<noteq> ?m" by auto
    from least[OF i(1)] i(2) have "f ?m < f i \<or> (f ?m = f i \<and> ?m < i)" by auto
    with m i show "i \<in> set js \<and> (\<exists>j\<in>set js. j \<noteq> i \<and> (f j < f i \<or> (f j = f i \<and> j < i)))"
      by (intro conjI bexI[of _ "?m"]) auto
  next
    assume a: "i \<in> set js \<and> (\<exists>j\<in>set js. j \<noteq> i \<and> (f j < f i \<or> (f j = f i \<and> j < i)))"
    then obtain j where j: "j \<in> set js" "j \<noteq> i" "f j < f i \<or> (f j = f i \<and> j < i)" by blast
    have "i \<noteq> ?m"
    proof
      assume "i = ?m"
      with least[OF j(1)] j(3) show False by auto
    qed
    with a s show "i \<in> set (drop 1 (sort_key f js))" by auto
  qed
qed

lemma distinct_concat_map:
  "distinct ks \<Longrightarrow> (\<And>k. k \<in> set ks \<Longrightarrow> distinct (g k)) \<Longrightarrow>
   (\<And>k k'. k \<in> set ks \<Longrightarrow> k' \<in> set ks \<Longrightarrow> k \<noteq> k' \<Longrightarrow> set (g k) \<inter> set (g k') = {}) \<Longrightarrow>
   distinct (concat (map g ks))"
proof (induction ks)
  case Nil
  then show ?case by simp
next
  case (Cons k ks)
  have "set (g k) \<inter> set (g k') = {}" if "k' \<in> set ks" for k'
    using Cons.prems(1) Cons.prems(3)[of k k'] that by auto
  moreover have "distinct (concat (map g ks))"
    using Cons by auto
  ultimately show ?case using Cons.prems(2)[of k] by auto
qed



lemma removal_indices:
  assumes g: "grouped acts dm"
  shows "\<exists>idxs. fst (identify_duplicates dm s) = map ((!) acts) idxs \<and> distinct idxs \<and>
           (\<forall>i. i \<in> set idxs \<longleftrightarrow>
                i < length acts \<and>
                (\<exists>j<length acts. j \<noteq> i \<and> same_key acts j i \<and> sorts_before acts j i))"
proof -
  define f where "f = (\<lambda>i. created_time (acts ! i))"
  define ix where "ix = (\<lambda>k. filter (\<lambda>i. unique_key (acts ! i) = k) [0..<length acts])"
  define rm where "rm = (\<lambda>k. drop 1 (sort_key f (ix k)))"
  define ks where "ks = map fst dm"
  define idxs where "idxs = concat (map rm ks)"
  have dks: "distinct ks" and sks: "set ks = unique_key ` set acts"
    using g by (auto simp: grouped_def ks_def)
  have sorted_ix: "sorted_wrt (<) (ix k)" for k
    unfolding ix_def by (rule sorted_wrt_filter) simp
  have set_ix: "set (ix k) = {i. i < length acts \<and> unique_key (acts ! i) = k}" for k
    by (auto simp: ix_def)
  have rm_iff: "i \<in> set (rm k) \<longleftrightarrow>
      i \<in> set (ix k) \<and> (\<exists>j\<in>set (ix k). j \<noteq> i \<and> (f j < f i \<or> (f j = f i \<and> j < i)))" for i k
    unfolding rm_def by (rule in_drop1_sort_key[OF sorted_ix])
  have bucket: "drop 1 (sort_key created_time (filter (\<lambda>a. unique_key a = k) acts))
      = map ((!) acts) (rm k)" for k
  proof -
    have "filter (\<lambda>a. unique_key a = k) acts = map ((!) acts) (ix k)"
      unfolding ix_def by (rule filter_as_nths)
    then show ?thesis
      by (simp add: sort_key_map rm_def f_def drop_map)
  qed
  have "fst (identify_duplicates dm s)
      = concat (map (\<lambda>(k, b). drop 1 (sort_key created_time b))
          (map (\<lambda>k. (k, filter (\<lambda>a. unique_key a = k) acts)) ks))"
    using grouped_dm[OF g] by (simp only: identify_duplicates_concat ks_def[symmetric])
  also have "\<dots> = concat (map (\<lambda>k. map ((!) acts) (rm k)) ks)"
    by (simp add: comp_def bucket[unfolded One_nat_def])
  also have "\<dots> = map ((!) acts) idxs"
    by (simp add: idxs_def map_concat comp_def)
  finally have 1: "fst (identify_duplicates dm s) = map ((!) acts) idxs" .
  have 2: "distinct idxs"
    unfolding idxs_def
  proof (rule distinct_concat_map[OF dks])
    fix k
    have "distinct (ix k)" by (simp add: ix_def)
    then show "distinct (rm k)" by (simp add: rm_def)
  next
    fix k k' :: string
    assume "k \<noteq> k'"
    then show "set (rm k) \<inter> set (rm k') = {}"
      by (auto simp: rm_iff set_ix)
  qed
  have 3: "i \<in> set idxs \<longleftrightarrow>
      i < length acts \<and> (\<exists>j<length acts. j \<noteq> i \<and> same_key acts j i \<and> sorts_before acts j i)" for i
  proof
    assume "i \<in> set idxs"
    then obtain k where "k \<in> set ks" "i \<in> set (rm k)" by (auto simp: idxs_def)
    then show "i < length acts \<and> (\<exists>j<length acts. j \<noteq> i \<and> same_key acts j i \<and> sorts_before acts j i)"
      by (auto simp: rm_iff set_ix same_key_def sorts_before_def f_def)
  next
    assume a: "i < length acts \<and> (\<exists>j<length acts. j \<noteq> i \<and> same_key acts j i \<and> sorts_before acts j i)"
    then have "unique_key (acts ! i) \<in> set ks" by (simp add: sks)
    moreover have "i \<in> set (rm (unique_key (acts ! i)))"
      using a by (auto simp: rm_iff set_ix same_key_def sorts_before_def f_def)
    ultimately show "i \<in> set idxs" by (auto simp: idxs_def)
  qed
  from 1 2 3 show ?thesis by blast
qed

lemma oldest_of_group:
  assumes "i < length acts"
  shows "\<exists>r<length acts. same_key acts r i \<and>
           (\<forall>j<length acts. j \<noteq> r \<and> same_key acts j r \<longrightarrow> \<not> sorts_before acts j r)"
proof -
  define f where "f = (\<lambda>i. created_time (acts ! i))"
  define js where "js = filter (\<lambda>j. unique_key (acts ! j) = unique_key (acts ! i)) [0..<length acts]"
  have s: "sorted_wrt (<) js" unfolding js_def by (rule sorted_wrt_filter) simp
  have ne: "js \<noteq> []" using assms by (auto simp: js_def filter_empty_conv)
  have set_js: "set js = {j. j < length acts \<and> unique_key (acts ! j) = unique_key (acts ! i)}"
    by (auto simp: js_def)
  let ?m = "hd (sort_key f js)"
  from hd_sort_key_least[OF s ne, of f]
  have m: "?m \<in> set js" and least: "\<And>j. j \<in> set js \<Longrightarrow> f ?m < f j \<or> (f ?m = f j \<and> ?m \<le> j)"
    by auto
  have "\<not> sorts_before acts j ?m" if "j < length acts" "j \<noteq> ?m" "same_key acts j ?m" for j
  proof -
    have "j \<in> set js" using that m by (simp add: set_js same_key_def)
    from least[OF this] that(2) show ?thesis by (auto simp: sorts_before_def f_def)
  qed
  with m show ?thesis by (auto simp: set_js same_key_def)
qed

subsection \<open>Example fetches\<close>

lemma activity_of_example_page:
  "activity_of (example_page i d n t) = Inr (example_activity i (split_T_first d) n t)"
  by (simp add: activity_of_def example_page_def example_activity_def extract_date_def
      extract_activity_type_def extract_activity_name_def get_dict_def get_str_def make_unique_key_def)

lemma scenario_fetch:
  "fst (get_all_activities_with_duplicates 2 scenario_client ''db'' (example_run [])) =
     Some (Inr (scenario_activities, scenario_map))"
  by (simp add: get_all_activities_with_duplicates_def scenario_client_def example_client_def
      example_run_def numeral_2_eq_2 truthy_def emit_def print_def activity_of_example_page
      split_T_first_def example_activity_def scenario_activities_def scenario_map_def)

lemma late_tie_fetch:
  "fst (get_all_activities_with_duplicates 2 late_tie_client ''db'' (example_run [])) =
     Some (Inr (late_tie_activities, one_bucket late_tie_activities))"
  by (simp add: get_all_activities_with_duplicates_def late_tie_client_def example_client_def
      example_run_def numeral_2_eq_2 truthy_def emit_def print_def activity_of_example_page
      split_T_first_def example_activity_def late_tie_activities_def one_bucket_def)

lemma early_tie_fetch:
  "fst (get_all_activities_with_duplicates 2 early_tie_client ''db'' (example_run [])) =
     Some (Inr (early_tie_activities, one_bucket early_tie_activities))"
  by (simp add: get_all_activities_with_duplicates_def early_tie_client_def example_client_def
      example_run_def numeral_2_eq_2 truthy_def emit_def print_def activity_of_example_page
      split_T_first_def example_activity_def early_tie_activities_def one_bucket_def)

subsection \<open>Which records are removed\<close>

text \<open>
  C1. Let \<open>acts\<close> be the fetched records and \<open>dm\<close> the buckets of a fetch that
  returned. The list that \<open>identify_duplicates\<close> returns consists of the records at
  positions \<open>idxs\<close> of \<open>acts\<close>, no position twice, and a position is among them if and
  only if another fetched record has the same composite key and sorts before it
  (earlier creation time, or the same creation time and fetched earlier). Consequently
  every key keeps exactly one record, the kept record has the least creation time of
  its key, and a record whose key no other record has is never removed. Creation times
  are compared as the script compares them, as strings.
\<close>

theorem identify_duplicates_keeps_oldest_of_each_key:
  assumes "get_all_activities_with_duplicates fuel c database_id s = (Some (Inr (acts, dm)), s')"
  shows "\<exists>idxs. fst (identify_duplicates dm t) = map ((!) acts) idxs \<and> distinct idxs \<and>
           (\<forall>i. i \<in> set idxs \<longleftrightarrow>
                i < length acts \<and>
                (\<exists>j<length acts. j \<noteq> i \<and> same_key acts j i \<and> sorts_before acts j i)) \<and>
           (\<forall>i<length acts. \<exists>!r. r < length acts \<and> same_key acts r i \<and> r \<notin> set idxs) \<and>
           (\<forall>r<length acts. r \<notin> set idxs \<longrightarrow>
                (\<forall>j<length acts. same_key acts j r \<longrightarrow> created_time (acts ! r) \<le> created_time (acts ! j))) \<and>
           (\<forall>i<length acts. (\<forall>j<length acts. j \<noteq> i \<longrightarrow> \<not> same_key acts j i) \<longrightarrow> i \<notin> set idxs)"
proof -
  from removal_indices[OF grouped_get_all[OF assms], of t] obtain idxs where
    1: "fst (identify_duplicates dm t) = map ((!) acts) idxs" and 2: "distinct idxs" and
    3: "\<And>i. i \<in> set idxs \<longleftrightarrow>
          i < length acts \<and> (\<exists>j<length acts. j \<noteq> i \<and> same_key acts j i \<and> sorts_before acts j i)"
    by blast
  have 4: "\<exists>!r. r < length acts \<and> same_key acts r i \<and> r \<notin> set idxs" if i: "i < length acts" for i
  proof -
    from oldest_of_group[OF i] obtain r where r: "r < length acts" "same_key acts r i"
      "\<And>j. j < length acts \<Longrightarrow> j \<noteq> r \<Longrightarrow> same_key acts j r \<Longrightarrow> \<not> sorts_before acts j r"
      by blast
    have "r \<notin> set idxs" using r by (auto simp: 3)
    moreover have "r' = r" if r': "r' < length acts" "same_key acts r' i" "r' \<notin> set idxs" for r'
    proof (rule ccontr)
      assume ne: "r' \<noteq> r"
      have sk: "same_key acts r r'" using r(2) r'(2) by (simp add: same_key_def)
      have "\<not> sorts_before acts r r'" using r' r(1) ne sk by (auto simp: 3)
      moreover have "\<not> sorts_before acts r' r" using r(3)[OF r'(1) ne] sk by (simp add: same_key_def)
      ultimately show False using ne by (auto simp: sorts_before_def)
    qed
    ultimately show ?thesis using r by blast
  qed
  have 5: "created_time (acts ! r) \<le> created_time (acts ! j)"
    if "r < length acts" "r \<notin> set idxs" "j < length acts" "same_key acts j r" for r j
  proof (cases "j = r")
    case True
    then show ?thesis by simp
  next
    case False
    with that have "\<not> sorts_before acts j r" by (auto simp: 3)
    then show ?thesis by (auto simp: sorts_before_def)
  qed
  have 6: "i \<notin> set idxs" if "i < length acts" "\<forall>j<length acts. j \<noteq> i \<longrightarrow> \<not> same_key acts j i" for i
    using that by (auto simp: 3)
  from 1 2 3 4 5 6 show ?thesis by blast
qed

theorem identify_duplicates_keeps_oldest_of_each_key_witness:
  "fst (get_all_activities_with_duplicates 2 scenario_client ''db'' (example_run [])) =
     Some (Inr (scenario_activities, scenario_map)) \<and>
   fst (identify_duplicates scenario_map (example_run [])) =
     [example_activity ''p2'' ''2024-01-01'' ''Morning Run'' ''t2''] \<and>
   (\<exists>idxs. fst (identify_duplicates scenario_map (example_run [])) = map ((!) scenario_activities) idxs \<and>
      distinct idxs \<and>
      (\<forall>i. i \<in> set idxs \<longleftrightarrow>
           i < length scenario_activities \<and>
           (\<exists>j<length scenario_activities.
              j \<noteq> i \<and> same_key scenario_activities j i \<and> sorts_before scenario_activities j i)) \<and>
      (\<forall>i<length scenario_activities.
         \<exists>!r. r < length scenario_activities \<and> same_key scenario_activities r i \<and> r \<notin> set idxs) \<and>
      (\<forall>r<length scenario_activities. r \<notin> set idxs \<longrightarrow>
         (\<forall>j<length scenario_activities. same_key scenario_activities j r \<longrightarrow>
            created_time (scenario_activities ! r) \<le> created_time (scenario_activities ! j))) \<and>
      (\<forall>i<length scenario_activities.
         (\<forall>j<length scenario_activities. j \<noteq> i \<longrightarrow> \<not> same_key scenario_activities j i) \<longrightarrow>
         i \<notin> set idxs))"
proof -
  obtain s' where h: "get_all_activities_with_duplicates 2 scenario_client ''db'' (example_run [])
      = (Some (Inr (scenario_activities, scenario_map)), s')"
    using scenario_fetch by (metis prod.collapse)
  have v: "fst (identify_duplicates scenario_map (example_run [])) =
     [example_activity ''p2'' ''2024-01-01'' ''Morning Run'' ''t2'']"
    by (simp add: identify_duplicates_def scenario_map_def example_activity_def Let_def
        print_def emit_def)
  show ?thesis
    using scenario_fetch v
      identify_duplicates_keeps_oldest_of_each_key[OF h, of "example_run []"]
    by (intro conjI)
qed

subsection \<open>Records created at the same time\<close>

text \<open>
  C2, as stated, promises that whenever records of one key share a creation time, the
  first fetched of them is retained. That holds only when the shared creation time is
  the least of the key. In the fetch below the second and the third record share the
  creation time \<open>t2\<close>, the first record is older, and both the second and the third
  record are removed: the first fetched of the two tied records is not retained.
\<close>

theorem first_of_a_late_tie_is_removed:
  "fst (get_all_activities_with_duplicates 2 late_tie_client ''db'' (example_run [])) =
     Some (Inr (late_tie_activities, one_bucket late_tie_activities)) \<and>
   same_key late_tie_activities 1 2 \<and>
   created_time (late_tie_activities ! 1) = created_time (late_tie_activities ! 2) \<and>
   created_time (late_tie_activities ! 0) \<noteq> created_time (late_tie_activities ! 1) \<and>
   fst (identify_duplicates (one_bucket late_tie_activities) (example_run [])) =
     [late_tie_activities ! 1, late_tie_activities ! 2]"
proof -
  have "fst (identify_duplicates (one_bucket late_tie_activities) (example_run [])) =
     [late_tie_activities ! 1, late_tie_activities ! 2]"
    by (simp add: identify_duplicates_def one_bucket_def late_tie_activities_def
        example_activity_def Let_def print_def emit_def)
  moreover have "same_key late_tie_activities 1 2"
    by (simp add: same_key_def late_tie_activities_def example_activity_def)
  moreover have "created_time (late_tie_activities ! 1) = created_time (late_tie_activities ! 2)"
    "created_time (late_tie_activities ! 0) \<noteq> created_time (late_tie_activities ! 1)"
    by (simp_all add: late_tie_activities_def example_activity_def)
  ultimately show ?thesis using late_tie_fetch by (intro conjI)
qed

text \<open>
  C2, amended. Let \<open>acts\<close> and \<open>dm\<close> be the result of a fetch that returned, and
  \<open>idxs\<close> the positions of the removed records. A record that has the least creation
  time of its key, and before which no record of that key with that creation time was
  fetched, is retained: among the records that share the least creation time of a key,
  the first fetched is the one kept. And whenever two records of one key share a
  creation time, the later fetched of the two is removed.
\<close>

theorem first_fetched_of_the_oldest_is_kept:
  assumes "get_all_activities_with_duplicates fuel c database_id s = (Some (Inr (acts, dm)), s')"
  shows "\<exists>idxs. fst (identify_duplicates dm t) = map ((!) acts) idxs \<and> distinct idxs \<and>
           (\<forall>i<length acts.
              (\<forall>j<length acts. same_key acts j i \<longrightarrow> created_time (acts ! i) \<le> created_time (acts ! j)) \<and>
              (\<forall>j<i. same_key acts j i \<longrightarrow> created_time (acts ! j) \<noteq> created_time (acts ! i))
              \<longrightarrow> i \<notin> set idxs) \<and>
           (\<forall>i<length acts. \<forall>j<length acts.
              i < j \<and> same_key acts i j \<and> created_time (acts ! i) = created_time (acts ! j)
              \<longrightarrow> j \<in> set idxs)"
proof -
  from removal_indices[OF grouped_get_all[OF assms], of t] obtain idxs where
    1: "fst (identify_duplicates dm t) = map ((!) acts) idxs" and 2: "distinct idxs" and
    3: "\<And>i. i \<in> set idxs \<longleftrightarrow>
          i < length acts \<and> (\<exists>j<length acts. j \<noteq> i \<and> same_key acts j i \<and> sorts_before acts j i)"
    by blast
  have 4: "i \<notin> set idxs"
    if "i < length acts"
      "\<forall>j<length acts. same_key acts j i \<longrightarrow> created_time (acts ! i) \<le> created_time (acts ! j)"
      "\<forall>j<i. same_key acts j i \<longrightarrow> created_time (acts ! j) \<noteq> created_time (acts ! i)" for i
  proof
    assume "i \<in> set idxs"
    then obtain j where j: "j < length acts" "j \<noteq> i" "same_key acts j i" "sorts_before acts j i"
      by (auto simp: 3)
    from that(2) j have "created_time (acts ! i) \<le> created_time (acts ! j)" by blast
    with j(4) have "created_time (acts ! j) = created_time (acts ! i)" "j < i"
      by (auto simp: sorts_before_def)
    with that(3) j(3) show False by blast
  qed
  have 5: "j \<in> set idxs"
    if "i < length acts" "j < length acts" "i < j" "same_key acts i j"
      "created_time (acts ! i) = created_time (acts ! j)" for i j
  proof -
    have "sorts_before acts i j" using that by (simp add: sorts_before_def)
    with that show ?thesis unfolding 3 by (intro conjI exI[of _ i]) auto
  qed
  from 1 2 4 5 show ?thesis by blast
qed

theorem first_fetched_of_the_oldest_is_kept_witness:
  "fst (get_all_activities_with_duplicates 2 early_tie_client ''db'' (example_run [])) =
     Some (Inr (early_tie_activities, one_bucket early_tie_activities)) \<and>
   created_time (early_tie_activities ! 0) = created_time (early_tie_activities ! 1) \<and>
   fst (identify_duplicates (one_bucket early_tie_activities) (example_run [])) =
     [early_tie_activities ! 1, early_tie_activities ! 2] \<and>
   (\<exists>idxs. fst (identify_duplicates (one_bucket early_tie_activities) (example_run [])) =
        map ((!) early_tie_activities) idxs \<and> distinct idxs \<and>
      (\<forall>i<length early_tie_activities.
         (\<forall>j<length early_tie_activities. same_key early_tie_activities j i \<longrightarrow>
            created_time (early_tie_activities ! i) \<le> created_time (early_tie_activities ! j)) \<and>
         (\<forall>j<i. same_key early_tie_activities j i \<longrightarrow>
            created_time (early_tie_activities ! j) \<noteq> created_time (early_tie_activities ! i))
         \<longrightarrow> i \<notin> set idxs) \<and>
      (\<forall>i<length early_tie_activities. \<forall>j<length early_tie_activities.
         i < j \<and> same_key early_tie_activities i j \<and>
         created_time (early_tie_activities ! i) = created_time (early_tie_activities ! j)
         \<longrightarrow> j \<in> set idxs))"
proof -
  obtain s' where h: "get_all_activities_with_duplicates 2 early_tie_client ''db'' (example_run [])
      = (Some (Inr (early_tie_activities, one_bucket early_tie_activities)), s')"
    using early_tie_fetch by (metis prod.collapse)
  have v: "fst (identify_duplicates (one_bucket early_tie_activities) (example_run [])) =
     [early_tie_activities ! 1, early_tie_activities ! 2]"
    by (simp add: identify_duplicates_def one_bucket_def early_tie_activities_def
        example_activity_def Let_def print_def emit_def)
  have e: "created_time (early_tie_activities ! 0) = created_time (early_tie_activities ! 1)"
    by (simp add: early_tie_activities_def example_activity_def)
  show ?thesis
    using early_tie_fetch v e first_fetched_of_the_oldest_is_kept[OF h, of "example_run []"]
    by (intro conjI)
qed

subsection \<open>The traces of the loops\<close>


lemma trace_emit: "trace (emit e s) = trace s @ [e]"
  by (simp add: emit_def)

lemma trace_print: "trace (print m s) = trace s @ [Print m]"
  by (simp add: print_def emit_def)

lemma updates_append: "updates (xs @ ys) = updates xs @ updates ys"
  by (induction xs rule: updates.induct) auto

lemma reports_append: "reports (xs @ ys) = reports xs @ reports ys"
  by (induction xs rule: reports.induct) auto

lemma answers_append: "answers (xs @ ys) = answers xs @ answers ys"
  by (induction xs rule: answers.induct) auto

lemma queries_append: "queries (xs @ ys) = queries xs @ queries ys"
  by (induction xs rule: queries.induct) auto

lemma remove_loop_trace:
  "\<exists>new. trace (snd (remove_loop c n i ds cnt s)) = trace s @ new \<and>
         map fst (updates new) = map id' ds \<and>
         fst (remove_loop c n i ds cnt s) = cnt + succeeded (updates new) \<and>
         reports new = [] \<and> answers new = [] \<and> queries new = []"
proof (induction ds arbitrary: i cnt s)
  case Nil
  then show ?case by (simp add: succeeded_def)
next
  case (Cons d ds)
  obtain r w' where u: "pages_update_archived c (id' d) (remote s) = (r, w')"
    by (cases "pages_update_archived c (id' d) (remote s)")
  define s1 where "s1 = emit (Update (id' d) r) (s\<lparr> remote := w' \<rparr>)"
  have t1: "trace s1 = trace s @ [Update (id' d) r]" by (simp add: s1_def trace_emit)
  show ?case
  proof (cases r)
    case None
    define s2 where "s2 = print (Archived i n (activity_name d) (date d)) s1"
    have t2: "trace s2 = trace s @ [Update (id' d) r, Print (Archived i n (activity_name d) (date d))]"
      by (simp add: s2_def trace_print t1)
    have step: "remove_loop c n i (d # ds) cnt s = remove_loop c n (i + 1) ds (cnt + 1) s2"
      using u None by (simp add: s1_def s2_def)
    from Cons.IH[of "i + 1" "cnt + 1" s2] obtain new where
      new: "trace (snd (remove_loop c n (i + 1) ds (cnt + 1) s2)) = trace s2 @ new"
        "map fst (updates new) = map id' ds"
        "fst (remove_loop c n (i + 1) ds (cnt + 1) s2) = cnt + 1 + succeeded (updates new)"
        "reports new = []" "answers new = []" "queries new = []"
      by blast
    show ?thesis
      unfolding step
      by (rule exI[of _ "[Update (id' d) r, Print (Archived i n (activity_name d) (date d))] @ new"])
         (use new t2 None in \<open>simp add: succeeded_def\<close>)
  next
    case (Some e)
    define s2 where "s2 = print (Error_removing i n (id' d) e) s1"
    have t2: "trace s2 = trace s @ [Update (id' d) r, Print (Error_removing i n (id' d) e)]"
      by (simp add: s2_def trace_print t1)
    have step: "remove_loop c n i (d # ds) cnt s = remove_loop c n (i + 1) ds cnt s2"
      using u Some by (simp add: s1_def s2_def)
    from Cons.IH[of "i + 1" cnt s2] obtain new where
      new: "trace (snd (remove_loop c n (i + 1) ds cnt s2)) = trace s2 @ new"
        "map fst (updates new) = map id' ds"
        "fst (remove_loop c n (i + 1) ds cnt s2) = cnt + succeeded (updates new)"
        "reports new = []" "answers new = []" "queries new = []"
      by blast
    show ?thesis
      unfolding step
      by (rule exI[of _ "[Update (id' d) r, Print (Error_removing i n (id' d) e)] @ new"])
         (use new t2 Some in \<open>simp add: succeeded_def\<close>)
  qed
qed


lemma fetch_pages_trace:
  "\<exists>new. trace (snd (fetch_pages fuel c db cur acc s)) = trace s @ new \<and>
         updates new = [] \<and> answers new = []"
proof (induction fuel arbitrary: cur acc s)
  case 0
  then show ?case by simp
next
  case (Suc fuel)
  define cursor where "cursor = (if truthy cur then cur else None)"
  obtain r w' where q: "databases_query c db cursor (remote s) = (r, w')"
    by (cases "databases_query c db cursor (remote s)")
  define s1 where "s1 = emit (Query db cursor) (s\<lparr> remote := w' \<rparr>)"
  have t1: "trace s1 = trace s @ [Query db cursor]" by (simp add: s1_def trace_emit)
  have stop: ?case if "fetch_pages (Suc fuel) c db cur acc s = (x, s1)" for x
    unfolding that by (rule exI[of _ "[Query db cursor]"]) (simp add: t1)
  show ?case
  proof (cases r)
    case (Inl e)
    then have "fetch_pages (Suc fuel) c db cur acc s = (Some (Inl e), s1)"
      using q by (simp add: cursor_def s1_def)
    then show ?thesis by (rule stop)
  next
    case (Inr resp)
    show ?thesis
    proof (cases "process_results (results resp) acc")
      case (Inl e)
      then have "fetch_pages (Suc fuel) c db cur acc s = (Some (Inl e), s1)"
        using q Inr by (simp add: cursor_def s1_def)
      then show ?thesis by (rule stop)
    next
      case acc': (Inr acc')
      show ?thesis
      proof (cases "has_more resp")
        case False
        then have "fetch_pages (Suc fuel) c db cur acc s = (Some (Inr acc'), s1)"
          using q Inr acc' by (simp add: cursor_def s1_def)
        then show ?thesis by (rule stop)
      next
        case True
        then have step: "fetch_pages (Suc fuel) c db cur acc s = fetch_pages fuel c db (next_cursor resp) acc' s1"
          using q Inr acc' by (simp add: cursor_def s1_def)
        from Suc.IH[of "next_cursor resp" acc' s1] obtain new where
          "trace (snd (fetch_pages fuel c db (next_cursor resp) acc' s1)) = trace s1 @ new"
          "updates new = []" "answers new = []" by blast
        then show ?thesis
          unfolding step by (intro exI[of _ "Query db cursor # new"]) (simp add: t1)
      qed
    qed
  qed
qed

lemma get_all_trace:
  "\<exists>new. trace (snd (get_all_activities_with_duplicates fuel c db s)) = trace s @ new \<and>
         updates new = [] \<and> answers new = []"
proof -
  from fetch_pages_trace[of fuel c db None "([], [])" "print Fetching_all s"] obtain new where
    new: "trace (snd (fetch_pages fuel c db None ([], []) (print Fetching_all s))) = trace (print Fetching_all s) @ new"
    "updates new = []" "answers new = []" by blast
  obtain r s1 where f: "fetch_pages fuel c db None ([], []) (print Fetching_all s) = (r, s1)"
    by (cases "fetch_pages fuel c db None ([], []) (print Fetching_all s)")
  show ?thesis
  proof (cases "\<exists>a d. r = Some (Inr (a, d))")
    case True
    then obtain a d where "r = Some (Inr (a, d))" by blast
    then show ?thesis using f new
      by (intro exI[of _ "Print Fetching_all # new @ [Print (Found_total (length a))]"])
         (simp add: get_all_activities_with_duplicates_def trace_print updates_append answers_append)
  next
    case False
    then have "get_all_activities_with_duplicates fuel c db s = (r, s1)"
      using f by (auto simp: get_all_activities_with_duplicates_def split: option.splits sum.splits)
    then show ?thesis using f new
      by (intro exI[of _ "Print Fetching_all # new"]) (simp add: trace_print)
  qed
qed

lemma identify_loop_trace:
  "\<exists>new. trace (snd (identify_loop dm st s)) = trace s @ new \<and>
         updates new = [] \<and> answers new = [] \<and> queries new = []"
proof (induction dm st s rule: identify_loop.induct)
  case (1 st s)
  then show ?case by simp
next
  case (2 key activities items duplicates duplicate_groups total_duplicate_count s)
  show ?case
  proof (cases "length activities > 1")
    case True
    define m where "m = Duplicate_group (duplicate_groups + 1) key (length (sort_key created_time activities))
        (id' (hd (sort_key created_time activities))) (created_time (hd (sort_key created_time activities)))
        (map (\<lambda>d. (id' d, created_time d)) (drop 1 (sort_key created_time activities)))"
    have step: "identify_loop ((key, activities) # items) (duplicates, duplicate_groups, total_duplicate_count) s
        = identify_loop items (duplicates @ drop 1 (sort_key created_time activities), duplicate_groups + 1,
            total_duplicate_count + length activities) (print m s)"
      using True by (simp add: Let_def m_def)
    from 2(1)[OF True refl refl refl refl refl, folded m_def] obtain new where
      "trace (snd (identify_loop items (duplicates @ drop 1 (sort_key created_time activities), duplicate_groups + 1,
            total_duplicate_count + length activities) (print m s))) = trace (print m s) @ new"
      "updates new = []" "answers new = []" "queries new = []" by blast
    then show ?thesis
      unfolding step by (intro exI[of _ "Print m # new"]) (simp add: trace_print)
  next
    case False
    with 2(2)[OF False] show ?thesis by simp
  qed
qed

lemma identify_duplicates_trace:
  "\<exists>new. trace (snd (identify_duplicates dm s)) = trace s @ new \<and>
         updates new = [] \<and> answers new = [] \<and> queries new = []"
proof -
  obtain d g t s1 where l: "identify_loop dm ([], 0, 0) s = ((d, g, t), s1)"
    by (metis prod.exhaust)
  from identify_loop_trace[of dm "([], 0, 0)" s] l obtain new where
    "trace s1 = trace s @ new" "updates new = []" "answers new = []" "queries new = []" by auto
  then show ?thesis using l
    by (intro exI[of _ "new @ [Print (Summary g t (length d))]"])
       (simp add: identify_duplicates_def trace_print updates_append answers_append queries_append)
qed

lemma remove_duplicates_trace:
  "\<exists>new. trace (remove_duplicates c ds s) = trace s @ new \<and> answers new = [] \<and> queries new = []"
proof (cases "ds = []")
  case True
  then show ?thesis
    by (intro exI[of _ "[Print No_duplicates_to_remove]"]) (simp add: remove_duplicates_def trace_print)
next
  case False
  define s0 where "s0 = print (Starting_removal (length ds)) s"
  from remove_loop_trace[of c "length ds" 1 ds 0 s0] obtain new where
    new: "trace (snd (remove_loop c (length ds) 1 ds 0 s0)) = trace s0 @ new"
      "answers new = []" "queries new = []"
    by blast
  obtain cnt s1 where l: "remove_loop c (length ds) 1 ds 0 s0 = (cnt, s1)"
    by (cases "remove_loop c (length ds) 1 ds 0 s0")
  have r: "remove_duplicates c ds s = print (Completed cnt (length ds)) s1"
    using False l by (simp add: remove_duplicates_def s0_def)
  show ?thesis
    unfolding r
    by (rule exI[of _ "Print (Starting_removal (length ds)) # new @ [Print (Completed cnt (length ds))]"])
       (use new l in \<open>simp add: trace_print s0_def answers_append queries_append\<close>)
qed

lemma input_cases:
  "(fst (input p s) = Inl EOFError \<and> trace (snd (input p s)) = trace s @ [Prompt p]) \<or>
   (\<exists>a. fst (input p s) = Inr a \<and> trace (snd (input p s)) = trace s @ [Prompt p, Answer a])"
  by (cases "stdin s") (simp_all add: input_def trace_emit emit_def)

subsection \<open>Removal\<close>

text \<open>
  C7. Whatever the remote service answers, the archive requests that \<open>remove_duplicates\<close>
  adds to the trace are, in order, one request for each record of the list it was given: a
  request that fails (its outcome is an error) stops none of the later ones. When the list is
  not empty the run reports a final count exactly once, and it reports the number of requests
  that succeeded together with the length of the list; for the empty list nothing is
  requested and no count is reported.
\<close>

theorem remove_duplicates_attempts_every_record:
  "\<exists>new. trace (remove_duplicates c duplicates s) = trace s @ new \<and>
         map fst (updates new) = map id' duplicates \<and>
         reports new =
           (if duplicates = [] then [] else [(succeeded (updates new), length duplicates)])"
proof (cases "duplicates = []")
  case True
  then show ?thesis
    by (intro exI[of _ "[Print No_duplicates_to_remove]"]) (simp add: remove_duplicates_def trace_print)
next
  case False
  define s0 where "s0 = print (Starting_removal (length duplicates)) s"
  from remove_loop_trace[of c "length duplicates" 1 duplicates 0 s0] obtain new where
    new: "trace (snd (remove_loop c (length duplicates) 1 duplicates 0 s0)) = trace s0 @ new"
      "map fst (updates new) = map id' duplicates"
      "fst (remove_loop c (length duplicates) 1 duplicates 0 s0) = 0 + succeeded (updates new)"
      "reports new = []"
    by blast
  obtain cnt s1 where l: "remove_loop c (length duplicates) 1 duplicates 0 s0 = (cnt, s1)"
    by (cases "remove_loop c (length duplicates) 1 duplicates 0 s0")
  have r: "remove_duplicates c duplicates s = print (Completed cnt (length duplicates)) s1"
    using False l by (simp add: remove_duplicates_def s0_def)
  show ?thesis
    unfolding r
    by (rule exI[of _ "Print (Starting_removal (length duplicates)) # new @ [Print (Completed cnt (length duplicates))]"])
       (use new l False in \<open>simp add: trace_print s0_def updates_append reports_append\<close>)
qed

theorem remove_duplicates_attempts_every_record_witness:
  "updates (trace (remove_duplicates scenario_client scenario_activities (example_run []))) =
     [(''p1'', None), (''p2'', Some (LibraryError ''conflict'')), (''p3'', None)] \<and>
   reports (trace (remove_duplicates scenario_client scenario_activities (example_run []))) = [(2, 3)] \<and>
   (\<exists>new. trace (remove_duplicates scenario_client scenario_activities (example_run [])) =
       trace (example_run [] :: nat run) @ new \<and>
     map fst (updates new) = map id' scenario_activities \<and>
     reports new =
       (if scenario_activities = [] then []
        else [(succeeded (updates new), length scenario_activities)]))"
proof -
  have "trace (remove_duplicates scenario_client scenario_activities (example_run [])) =
      [Print (Starting_removal 3), Update ''p1'' None, Print (Archived 1 3 ''Morning Run'' ''2024-01-01''),
       Update ''p2'' (Some (LibraryError ''conflict'')),
       Print (Error_removing 2 3 ''p2'' (LibraryError ''conflict'')),
       Update ''p3'' None, Print (Archived 3 3 ''Evening Run'' ''2024-01-02''),
       Print (Completed 2 3)]"
    by (simp add: remove_duplicates_def scenario_client_def example_client_def scenario_activities_def
        example_activity_def example_run_def print_def emit_def)
  then show ?thesis
    using remove_duplicates_attempts_every_record[of scenario_client scenario_activities "example_run []"]
    by (intro conjI) simp_all
qed

subsection \<open>The two confirmations\<close>


lemma main_try_trace:
  "\<exists>new. trace (snd (main_try fuel c db s)) = trace s @ new \<and>
     ((updates new = [] \<and> answers new = []) \<or>
      (\<exists>mid a2. new = mid @ [Prompt Proceed_with_removal, Answer a2, Print Cleanup_cancelled] \<and>
         \<not> confirmed a2 \<and> updates mid = [] \<and> answers mid = [] \<and>
         fst (main_try fuel c db s) = Some (Inr ())) \<or>
      (\<exists>mid a2 post. new = mid @ [Prompt Proceed_with_removal, Answer a2] @ post \<and>
         confirmed a2 \<and> updates mid = [] \<and> answers mid = [] \<and>
         queries post = [] \<and> answers post = [] \<and>
         fst (main_try fuel c db s) = Some (Inr ())))"
proof -
  obtain r s1 where g: "get_all_activities_with_duplicates fuel c db s = (r, s1)"
    by (cases "get_all_activities_with_duplicates fuel c db s")
  from get_all_trace[of fuel c db s] g obtain n1 where
    n1: "trace s1 = trace s @ n1" "updates n1 = []" "answers n1 = []" by auto
  show ?thesis
  proof (cases "\<exists>a d. r = Some (Inr (a, d))")
    case False
    then have "main_try fuel c db s = (case r of None \<Rightarrow> None | Some x \<Rightarrow> Some (Inl (projl x)), s1)"
      using g by (auto simp: main_try_def split: option.splits sum.splits)
    then show ?thesis using n1 by (intro exI[of _ n1]) simp
  next
    case True
    then obtain a dm where r: "r = Some (Inr (a, dm))" by blast
    obtain ds s2 where i: "identify_duplicates dm s1 = (ds, s2)"
      by (cases "identify_duplicates dm s1")
    from identify_duplicates_trace[of dm s1] i obtain n2 where
      n2: "trace s2 = trace s1 @ n2" "updates n2 = []" "answers n2 = []" by auto
    show ?thesis
    proof (cases "ds = []")
      case True
      then have "main_try fuel c db s = (Some (Inr ()), print Database_clean s2)"
        using g r i by (simp add: main_try_def)
      then show ?thesis using n1 n2
        by (intro exI[of _ "n1 @ n2 @ [Print Database_clean]"])
           (simp add: trace_print updates_append answers_append)
    next
      case False
      define s3 where "s3 = print (Found_to_remove (length ds)) s2"
      define mid where "mid = n1 @ n2 @ [Print (Found_to_remove (length ds))]"
      have t3: "trace s3 = trace s @ mid" by (simp add: s3_def mid_def trace_print n1 n2)
      have q: "updates mid = []" "answers mid = []"
        by (simp_all add: mid_def updates_append answers_append n1 n2)
      obtain x s4 where inp: "input Proceed_with_removal s3 = (x, s4)"
        by (cases "input Proceed_with_removal s3")
      from input_cases[of Proceed_with_removal s3] inp
      consider (eof) "x = Inl EOFError" "trace s4 = trace s3 @ [Prompt Proceed_with_removal]"
        | (ans) a2 where "x = Inr a2" "trace s4 = trace s3 @ [Prompt Proceed_with_removal, Answer a2]"
        by auto
      then show ?thesis
      proof cases
        case eof
        then have "main_try fuel c db s = (Some (Inl EOFError), s4)"
          using g r i False inp by (simp add: main_try_def s3_def)
        then show ?thesis using eof t3 q
          by (intro exI[of _ "mid @ [Prompt Proceed_with_removal]"])
             (simp add: updates_append answers_append)
      next
        case ans
        show ?thesis
        proof (cases "confirmed a2")
          case no: False
          then have m: "main_try fuel c db s = (Some (Inr ()), print Cleanup_cancelled s4)"
            using g r i False inp ans by (simp add: main_try_def s3_def)
          show ?thesis
            unfolding m
            by (rule exI[of _ "mid @ [Prompt Proceed_with_removal, Answer a2, Print Cleanup_cancelled]"])
               (use ans t3 q no in \<open>auto simp: trace_print\<close>)
        next
          case yes: True
          then have m: "main_try fuel c db s =
              (Some (Inr ()), print Cleanup_completed (remove_duplicates c ds s4))"
            using g r i False inp ans by (simp add: main_try_def s3_def)
          from remove_duplicates_trace[of c ds s4] obtain n5 where
            n5: "trace (remove_duplicates c ds s4) = trace s4 @ n5" "answers n5 = []" "queries n5 = []"
            by blast
          have p: "queries (n5 @ [Print Cleanup_completed]) = []" "answers (n5 @ [Print Cleanup_completed]) = []"
            by (simp_all add: queries_append answers_append n5)
          have t: "trace (snd (main_try fuel c db s)) =
              trace s @ mid @ [Prompt Proceed_with_removal, Answer a2] @ (n5 @ [Print Cleanup_completed])"
            by (simp add: m trace_print n5 ans t3)
          show ?thesis
            apply (rule exI[of _ "mid @ [Prompt Proceed_with_removal, Answer a2] @ (n5 @ [Print Cleanup_completed])"])
            apply (rule conjI[OF t])
            apply (rule disjI2, rule disjI2)
            apply (rule exI[of _ mid], rule exI[of _ a2], rule exI[of _ "n5 @ [Print Cleanup_completed]"])
            using yes q p m apply simp
            done
        qed
      qed
    qed
  qed
qed

text \<open>
  C8. In every run of \<open>main\<close>, whatever the environment, the remote service, the input and
  the fuel: if the trace holds an archive request, then the run asked the first question and
  was answered yes before any query or request, asked the second question after the queries
  and was answered yes, and every archive request comes after that second answer. If an
  answer that was given is not a yes, \<open>main\<close> returns and the trace holds no archive request.
  A yes is what the script accepts: \<^verbatim>\<open>yes\<close> or \<^verbatim>\<open>y\<close>, in any case, with white space
  around it stripped.
\<close>

theorem main_archives_only_after_two_confirmations:
  "\<exists>new. trace (snd (main environ Client fuel s)) = trace s @ new \<and>
     (updates new \<noteq> [] \<longrightarrow>
        (\<exists>pre a1 mid a2 post.
           new = pre @ [Prompt Proceed, Answer a1] @ mid @ [Prompt Proceed_with_removal, Answer a2] @ post \<and>
           confirmed a1 \<and> confirmed a2 \<and>
           updates pre = [] \<and> queries pre = [] \<and> answers pre = [] \<and>
           updates mid = [] \<and> answers mid = [] \<and>
           queries post = [] \<and> answers post = [])) \<and>
     ((\<exists>a \<in> set (answers new). \<not> confirmed a) \<longrightarrow>
        fst (main environ Client fuel s) = Returned \<and> updates new = [])"
proof (cases "\<not> truthy (environ ''NOTION_TOKEN'') \<or> \<not> truthy (environ ''NOTION_DB_ID'')")
  case True
  then have "main environ Client fuel s = (Returned, print Missing_environment s)"
    by (simp add: main_def)
  then show ?thesis
    by (intro exI[of _ "[Print Missing_environment]"]) (simp add: trace_print)
next
  case env: False
  define s0 where "s0 = print Banner s"
  define c where "c = Client (the (environ ''NOTION_TOKEN''))"
  define db where "db = the (environ ''NOTION_DB_ID'')"
  obtain x s1 where inp: "input Proceed s0 = (x, s1)" by (cases "input Proceed s0")
  from input_cases[of Proceed s0] inp
  consider (eof) "x = Inl EOFError" "trace s1 = trace s @ [Print Banner, Prompt Proceed]"
    | (ans) a1 where "x = Inr a1" "trace s1 = trace s @ [Print Banner, Prompt Proceed, Answer a1]"
    by (auto simp: s0_def trace_print)
  then show ?thesis
  proof cases
    case eof
    then have "main environ Client fuel s = (Raised EOFError, s1)"
      using env inp by (simp add: main_def s0_def)
    then show ?thesis using eof
      by (intro exI[of _ "[Print Banner, Prompt Proceed]"]) simp
  next
    case ans
    show ?thesis
    proof (cases "confirmed a1")
      case False
      then have "main environ Client fuel s = (Returned, print Cleanup_cancelled s1)"
        using env inp ans by (simp add: main_def s0_def)
      then show ?thesis using ans False
        by (intro exI[of _ "[Print Banner, Prompt Proceed, Answer a1, Print Cleanup_cancelled]"])
           (simp add: trace_print)
    next
      case yes: True
      obtain r s2 where t: "main_try fuel c db s1 = (r, s2)" by (cases "main_try fuel c db s1")
      define fin where "fin = (case r of None \<Rightarrow> [] | Some (Inl e) \<Rightarrow> [Print (Error_during_cleanup e)] | Some (Inr u) \<Rightarrow> [])"
      have fin: "updates fin = []" "answers fin = []" "queries fin = []"
        by (auto simp: fin_def split: option.splits sum.splits)
      have fin_ok: "fin = []" if "r = Some (Inr ())"
        using that by (simp add: fin_def)
      have m: "trace (snd (main environ Client fuel s)) = trace s2 @ fin"
        using env inp ans yes t
        by (auto simp: main_def s0_def c_def db_def fin_def trace_print split: option.splits sum.splits)
      have out: "fst (main environ Client fuel s) = Returned" if "r \<noteq> None"
        using env inp ans yes t that
        by (auto simp: main_def s0_def c_def db_def split: option.splits sum.splits)
      have "\<exists>new. trace s2 = trace s1 @ new \<and>
        ((updates new = [] \<and> answers new = []) \<or>
          (\<exists>mid a2. new = mid @ [Prompt Proceed_with_removal, Answer a2, Print Cleanup_cancelled] \<and>
             \<not> confirmed a2 \<and> updates mid = [] \<and> answers mid = [] \<and> r = Some (Inr ())) \<or>
          (\<exists>mid a2 post. new = mid @ [Prompt Proceed_with_removal, Answer a2] @ post \<and>
             confirmed a2 \<and> updates mid = [] \<and> answers mid = [] \<and>
             queries post = [] \<and> answers post = [] \<and> r = Some (Inr ())))"
        using main_try_trace[of fuel c db s1] unfolding t fst_conv snd_conv .
      then obtain new where
        new: "trace s2 = trace s1 @ new" and
        shape: "(updates new = [] \<and> answers new = []) \<or>
          (\<exists>mid a2. new = mid @ [Prompt Proceed_with_removal, Answer a2, Print Cleanup_cancelled] \<and>
             \<not> confirmed a2 \<and> updates mid = [] \<and> answers mid = [] \<and> r = Some (Inr ())) \<or>
          (\<exists>mid a2 post. new = mid @ [Prompt Proceed_with_removal, Answer a2] @ post \<and>
             confirmed a2 \<and> updates mid = [] \<and> answers mid = [] \<and>
             queries post = [] \<and> answers post = [] \<and> r = Some (Inr ()))"
        by (elim exE conjE) (rule that)
      have tr: "trace (snd (main environ Client fuel s)) =
          trace s @ ([Print Banner, Prompt Proceed, Answer a1] @ new @ fin)"
        by (simp add: m new ans)
      from shape consider
          (quiet) "updates new = []" "answers new = []"
        | (cancelled) mid a2 where "new = mid @ [Prompt Proceed_with_removal, Answer a2, Print Cleanup_cancelled]"
            "\<not> confirmed a2" "updates mid = []" "answers mid = []" "r = Some (Inr ())"
        | (removed) mid a2 post where "new = mid @ [Prompt Proceed_with_removal, Answer a2] @ post"
            "confirmed a2" "updates mid = []" "answers mid = []" "queries post = []" "answers post = []"
            "r = Some (Inr ())"
        by blast
      then show ?thesis
      proof cases
        case quiet
        show ?thesis
          by (rule exI[of _ "[Print Banner, Prompt Proceed, Answer a1] @ new @ fin"])
             (use tr quiet fin yes in \<open>simp add: updates_append answers_append\<close>)
      next
        case cancelled
        have "fst (main environ Client fuel s) = Returned" using out cancelled by simp
        then show ?thesis
          by (intro exI[of _ "[Print Banner, Prompt Proceed, Answer a1] @ new @ fin"])
             (use tr cancelled fin yes in \<open>simp add: updates_append answers_append\<close>)
      next
        case removed
        have f: "fin = []" using fin_ok removed by simp
        have o: "fst (main environ Client fuel s) = Returned" using out removed by simp
        have e: "[Print Banner, Prompt Proceed, Answer a1] @ new @ fin =
            [Print Banner] @ [Prompt Proceed, Answer a1] @ mid @ [Prompt Proceed_with_removal, Answer a2] @ post"
          using removed f by simp
        have 1: "\<exists>pre a1' mid' a2' post'.
           [Print Banner, Prompt Proceed, Answer a1] @ new @ fin =
             pre @ [Prompt Proceed, Answer a1'] @ mid' @ [Prompt Proceed_with_removal, Answer a2'] @ post' \<and>
           confirmed a1' \<and> confirmed a2' \<and>
           updates pre = [] \<and> queries pre = [] \<and> answers pre = [] \<and>
           updates mid' = [] \<and> answers mid' = [] \<and>
           queries post' = [] \<and> answers post' = []"
          apply (rule exI[of _ "[Print Banner]"], rule exI[of _ a1], rule exI[of _ mid],
              rule exI[of _ a2], rule exI[of _ post])
          using e yes removed apply simp
          done
        have 2: "\<forall>a \<in> set (answers ([Print Banner, Prompt Proceed, Answer a1] @ new @ fin)). confirmed a"
          using removed yes f by (simp add: answers_append)
        show ?thesis
          apply (rule exI[of _ "[Print Banner, Prompt Proceed, Answer a1] @ new @ fin"])
          using tr 1 2 apply blast
          done
      qed
    qed
  qed
qed

theorem main_archives_only_after_two_confirmations_witness:
  "updates (trace (snd (main example_environ (\<lambda>token. scenario_client) 2 (example_run [''yes'', '' Y\<newline>'']))))
     = [(''p2'', Some (LibraryError ''conflict''))] \<and>
   (\<exists>pre a1 mid a2 post.
      trace (snd (main example_environ (\<lambda>token. scenario_client) 2 (example_run [''yes'', '' Y\<newline>''])))
        = pre @ [Prompt Proceed, Answer a1] @ mid @ [Prompt Proceed_with_removal, Answer a2] @ post \<and>
      confirmed a1 \<and> confirmed a2 \<and>
      updates pre = [] \<and> queries pre = [] \<and> answers pre = [] \<and>
      updates mid = [] \<and> answers mid = [] \<and>
      queries post = [] \<and> answers post = []) \<and>
   answers (trace (snd (main example_environ (\<lambda>token. scenario_client) 2 (example_run [''yes'', ''no'']))))
     = [''yes'', ''no''] \<and>
   \<not> confirmed ''no'' \<and>
   fst (main example_environ (\<lambda>token. scenario_client) 2 (example_run [''yes'', ''no''])) = Returned \<and>
   updates (trace (snd (main example_environ (\<lambda>token. scenario_client) 2 (example_run [''yes'', ''no''])))) = []"
proof -
  let ?yes = "main example_environ (\<lambda>token. scenario_client) 2 (example_run [''yes'', '' Y\<newline>''])"
  let ?no = "main example_environ (\<lambda>token. scenario_client) 2 (example_run [''yes'', ''no''])"
  have e: "trace (example_run ls :: nat run) = []" for ls
    by (simp add: example_run_def)
  have 1: "updates (trace (snd ?yes)) = [(''p2'', Some (LibraryError ''conflict''))]"
    by code_simp
  have 2: "answers (trace (snd ?no)) = [''yes'', ''no'']"
    by code_simp
  have 3: "\<not> confirmed ''no''"
    by code_simp
  from main_archives_only_after_two_confirmations[of example_environ "\<lambda>token. scenario_client" 2
      "example_run [''yes'', '' Y\<newline>'']"]
  obtain new where new: "trace (snd ?yes) = new"
    "updates new \<noteq> [] \<longrightarrow>
        (\<exists>pre a1 mid a2 post.
           new = pre @ [Prompt Proceed, Answer a1] @ mid @ [Prompt Proceed_with_removal, Answer a2] @ post \<and>
           confirmed a1 \<and> confirmed a2 \<and>
           updates pre = [] \<and> queries pre = [] \<and> answers pre = [] \<and>
           updates mid = [] \<and> answers mid = [] \<and>
           queries post = [] \<and> answers post = [])"
    unfolding e append_Nil by blast
  have "updates new \<noteq> []" using 1 new(1) by simp
  with new have 4: "\<exists>pre a1 mid a2 post.
      trace (snd ?yes)
        = pre @ [Prompt Proceed, Answer a1] @ mid @ [Prompt Proceed_with_removal, Answer a2] @ post \<and>
      confirmed a1 \<and> confirmed a2 \<and>
      updates pre = [] \<and> queries pre = [] \<and> answers pre = [] \<and>
      updates mid = [] \<and> answers mid = [] \<and>
      queries post = [] \<and> answers post = []"
    by simp
  from main_archives_only_after_two_confirmations[of example_environ "\<lambda>token. scenario_client" 2
      "example_run [''yes'', ''no'']"]
  obtain new' where new': "trace (snd ?no) = new'"
    "(\<exists>a \<in> set (answers new'). \<not> confirmed a) \<longrightarrow> fst ?no = Returned \<and> updates new' = []"
    unfolding e append_Nil by blast
  have "\<exists>a \<in> set (answers new'). \<not> confirmed a"
    using 2 3 new'(1) by simp
  with new' have 5: "fst ?no = Returned" "updates (trace (snd ?no)) = []"
    by simp_all
  from 1 4 2 3 5 show ?thesis by (intro conjI)
qed

section \<open>Properties of the session manager\<close>

subsection \<open>Base64 decodes what it encoded\<close>





















subsection \<open>Steps of the session manager\<close>

declare str_nat.simps [simp del]

lemma probes_append: "probes (xs @ ys) = probes xs @ probes ys"
  by (induction xs rule: probes.induct) auto

lemma actions_say: "actions (say n st) = actions st @ [Printed n]"
  by (simp add: say_def act_def)



lemma read_file_ok:
  assumes "session_file st = Some f" "os_fault pf (os_calls st) = None"
  shows "read_file pf (say n st) =
           (Inr (contents f), (say n st)\<lparr> os_calls := os_calls st + 1 \<rparr>)"
  using assms by (simp add: read_file_def os_call_def say_def act_def)

lemma login_with_session_too_old:
  assumes "session_file st = Some f" "os_fault pf (os_calls st) = None"
    "pickle_loads pf (contents f) = Inr sd"
    "timedelta_days 360 < clock pf (ticks st) - timestamp sd"
  shows "login_with_session pf self st =
           (Inl (Exception' (''Session too old ('' @ str_int (days (clock pf (ticks st) - timestamp sd)) @ '' days)'')),
            self,
            st\<lparr> actions := actions st @ [Printed Loading_existing_session],
                os_calls := os_calls st + 1, ticks := ticks st + 1 \<rparr>)"
  using assms
  by (simp add: login_with_session_def read_file_def os_call_def say_def act_def datetime_now_def Let_def)

lemma login_with_session_valid:
  assumes "session_file st = Some f" "os_fault pf (os_calls st) = None"
    "pickle_loads pf (contents f) = Inr sd"
    "clock pf (ticks st) - timestamp sd \<le> timedelta_days 360"
    "garth_loads pf (session sd) = None" "get_full_name pf (session sd) = Inr name"
  shows "login_with_session pf self st =
           (Inr (Garmin (None, None) (Some (session sd))),
            self\<lparr> garmin := Some (Garmin (None, None) (Some (session sd))) \<rparr>,
            st\<lparr> actions := actions st @ [Printed Loading_existing_session, Probe_call (session sd),
                   Printed (Session_valid (days (clock pf (ticks st) - timestamp sd)))],
                os_calls := os_calls st + 1, ticks := ticks st + 1 \<rparr>)"
  using assms
  by (simp add: login_with_session_def read_file_def os_call_def say_def act_def datetime_now_def Let_def)

lemma save_session_actions:
  "\<exists>new. actions (save_session pf self st) = actions st @ new \<and> probes new = []"
proof -
  have "\<exists>m. actions (save_session pf self st) = actions st @ [Printed m]"
    by (auto simp: save_session_def save_session'_def datetime_now_def open_wb_def write_file_def
        chmod_def os_call_def say_def act_def Let_def split: option.splits prod.splits)
  then show ?thesis by auto
qed

lemma fresh_login_actions:
  "\<exists>new. actions (snd (snd (fresh_login pf self st))) = actions st @ new \<and> probes new = []"
proof (cases "\<not> truthy (email self) \<or> \<not> truthy (password self)")
  case True
  then show ?thesis by (simp add: fresh_login_def)
next
  case False
  define st2 where "st2 = act (Login_call (the (email self)) (the (password self))) (say Performing_fresh_login st)"
  have a2: "actions st2 = actions st @ [Printed Performing_fresh_login, Login_call (the (email self)) (the (password self))]"
    by (simp add: st2_def act_def say_def)
  show ?thesis
  proof (cases "garmin_login pf (the (email self)) (the (password self))")
    case (Inl e)
    then have "snd (snd (fresh_login pf self st)) = st2"
      using False by (simp add: fresh_login_def st2_def Let_def)
    then show ?thesis using a2 by simp
  next
    case (Inr tokens)
    then have f: "snd (snd (fresh_login pf self st)) =
        save_session pf (self\<lparr> garmin := Some (Garmin (email self, password self) (Some tokens)) \<rparr>) st2"
      using False by (simp add: fresh_login_def st2_def Let_def)
    from save_session_actions[of pf "self\<lparr> garmin := Some (Garmin (email self, password self) (Some tokens)) \<rparr>" st2]
    obtain new where "actions (save_session pf (self\<lparr> garmin := Some (Garmin (email self, password self) (Some tokens)) \<rparr>) st2)
        = actions st2 @ new" "probes new = []" by blast
    then show ?thesis unfolding f a2
      by (intro exI[of _ "[Printed Performing_fresh_login, Login_call (the (email self)) (the (password self))] @ new"])
         (simp add: probes_append)
  qed
qed





subsection \<open>Reusing a session\<close>

text \<open>
  C3. Let the session file be readable and unpickle to a session stored at time
  \<open>timestamp sd\<close>, and let \<open>clock pf (ticks st)\<close> be what \<^verbatim>\<open>datetime.now()\<close> returns. The age
  that \<open>login_with_session\<close> tests and prints is the difference of the two. If it exceeds 360
  days, \<open>login_with_session\<close> raises, and \<open>login\<close> without forced refresh reports the failure
  and continues with \<open>fresh_login\<close>. If it does not exceed 360 days, the session is restored
  and the probe succeeds, then \<open>login_with_session\<close>, and \<open>login\<close> with it, returns the client
  rebuilt from the stored session. (The probe is called only when \<^verbatim>\<open>garth.loads\<close> accepted
  the stored session.)
\<close>

theorem session_reuse_depends_on_age_and_probe:
  assumes "session_file st = Some f" "os_fault pf (os_calls st) = None"
    "pickle_loads pf (contents f) = Inr sd"
  shows "(timedelta_days 360 < clock pf (ticks st) - timestamp sd \<longrightarrow>
            fst (login_with_session pf self st) =
              Inl (Exception' (''Session too old ('' @ str_int (days (clock pf (ticks st) - timestamp sd)) @ '' days)'')) \<and>
            login pf self False st =
              fresh_login pf self
                (say Attempting_fresh_login
                  (say (Session_login_failed
                     (Exception' (''Session too old ('' @ str_int (days (clock pf (ticks st) - timestamp sd)) @ '' days)'')))
                     (snd (snd (login_with_session pf self st)))))) \<and>
         (clock pf (ticks st) - timestamp sd \<le> timedelta_days 360 \<and>
          garth_loads pf (session sd) = None \<and> get_full_name pf (session sd) = Inr name \<longrightarrow>
            fst (login_with_session pf self st) = Inr (Garmin (None, None) (Some (session sd))) \<and>
            fst (login pf self False st) = Inr (Garmin (None, None) (Some (session sd))))"
proof (intro conjI impI)
  assume old: "timedelta_days 360 < clock pf (ticks st) - timestamp sd"
  note l = login_with_session_too_old[OF assms old, of self]
  show "fst (login_with_session pf self st) =
      Inl (Exception' (''Session too old ('' @ str_int (days (clock pf (ticks st) - timestamp sd)) @ '' days)''))"
    by (simp add: l)
  show "login pf self False st =
      fresh_login pf self
        (say Attempting_fresh_login
          (say (Session_login_failed
             (Exception' (''Session too old ('' @ str_int (days (clock pf (ticks st) - timestamp sd)) @ '' days)'')))
             (snd (snd (login_with_session pf self st)))))"
    using assms(1) by (simp add: login_def file_exists_def l)
next
  assume "clock pf (ticks st) - timestamp sd \<le> timedelta_days 360 \<and>
          garth_loads pf (session sd) = None \<and> get_full_name pf (session sd) = Inr name"
  then have a: "clock pf (ticks st) - timestamp sd \<le> timedelta_days 360"
    "garth_loads pf (session sd) = None" "get_full_name pf (session sd) = Inr name" by auto
  note l = login_with_session_valid[OF assms a, of self]
  show "fst (login_with_session pf self st) = Inr (Garmin (None, None) (Some (session sd)))"
    by (simp add: l)
  show "fst (login pf self False st) = Inr (Garmin (None, None) (Some (session sd)))"
    using assms(1) by (simp add: login_def file_exists_def l)
qed

theorem session_reuse_depends_on_age_and_probe_witness:
  "fst (login_with_session example_platform example_auth (example_state (Some old_file))) =
     Inl (Exception' ''Session too old (400 days)'') \<and>
   login example_platform example_auth False (example_state (Some old_file)) =
     fresh_login example_platform example_auth
       (say Attempting_fresh_login
         (say (Session_login_failed (Exception' ''Session too old (400 days)''))
           (snd (snd (login_with_session example_platform example_auth (example_state (Some old_file))))))) \<and>
   fst (login_with_session example_platform example_auth (example_state (Some recent_file))) =
     Inr (Garmin (None, None) (Some ''recent-tokens'')) \<and>
   fst (login example_platform example_auth False (example_state (Some recent_file))) =
     Inr (Garmin (None, None) (Some ''recent-tokens''))"
proof -
  let ?old = "\<lparr> session = ''old-tokens'', timestamp = 0, session_email = Some ''runner@example.org'' \<rparr>"
  let ?recent = "\<lparr> session = ''recent-tokens'', timestamp = timedelta_days 100,
      session_email = Some ''runner@example.org'' \<rparr>"
  have m: "str_int (days (clock example_platform (ticks (example_state (Some old_file))) - timestamp ?old))
      = ''400''"
    by code_simp
  have o: "session_file (example_state (Some old_file)) = Some old_file"
    "os_fault example_platform (os_calls (example_state (Some old_file))) = None"
    "pickle_loads example_platform (contents old_file) = Inr ?old"
    by (simp_all add: example_state_def example_platform_def old_file_def)
  have oa: "timedelta_days 360 < clock example_platform (ticks (example_state (Some old_file))) - timestamp ?old"
    by (simp add: example_state_def example_platform_def timedelta_days_def)
  have r: "session_file (example_state (Some recent_file)) = Some recent_file"
    "os_fault example_platform (os_calls (example_state (Some recent_file))) = None"
    "pickle_loads example_platform (contents recent_file) = Inr ?recent"
    by (simp_all add: example_state_def example_platform_def recent_file_def)
  have ra: "clock example_platform (ticks (example_state (Some recent_file))) - timestamp ?recent
        \<le> timedelta_days 360"
    "garth_loads example_platform (session ?recent) = None"
    "get_full_name example_platform (session ?recent) = Inr ''Runner''"
    by (simp_all add: example_state_def example_platform_def timedelta_days_def)
  from session_reuse_depends_on_age_and_probe[OF o, of example_auth "''Runner''"] oa
  have 1: "fst (login_with_session example_platform example_auth (example_state (Some old_file))) =
      Inl (Exception' ''Session too old (400 days)'')"
    "login example_platform example_auth False (example_state (Some old_file)) =
     fresh_login example_platform example_auth
       (say Attempting_fresh_login
         (say (Session_login_failed (Exception' ''Session too old (400 days)''))
           (snd (snd (login_with_session example_platform example_auth (example_state (Some old_file)))))))"
    unfolding m by simp_all
  from session_reuse_depends_on_age_and_probe[OF r, of example_auth "''Runner''"] ra
  have 2: "fst (login_with_session example_platform example_auth (example_state (Some recent_file))) =
      Inr (Garmin (None, None) (Some ''recent-tokens''))"
    "fst (login example_platform example_auth False (example_state (Some recent_file))) =
      Inr (Garmin (None, None) (Some ''recent-tokens''))"
    by simp_all
  from 1 2 show ?thesis by (intro conjI)
qed

text \<open>
  C4. Let the session file be readable and unpickle to a session whose timestamp lies
  more than 360 days (400 days, for one) before what \<^verbatim>\<open>datetime.now()\<close> returns. Then
  \<open>login\<close> without forced refresh is \<open>fresh_login\<close>, entered right after the age check failed
  and the failure was printed, and no liveness probe is among the actions of the whole run.
\<close>

theorem old_session_is_never_probed:
  assumes "session_file st = Some f" "os_fault pf (os_calls st) = None"
    "pickle_loads pf (contents f) = Inr sd"
    "timedelta_days 360 < clock pf (ticks st) - timestamp sd"
  shows "login pf self False st =
           fresh_login pf self
             (say Attempting_fresh_login
               (say (Session_login_failed
                  (Exception' (''Session too old ('' @ str_int (days (clock pf (ticks st) - timestamp sd)) @ '' days)'')))
                  (st\<lparr> actions := actions st @ [Printed Loading_existing_session],
                      os_calls := os_calls st + 1, ticks := ticks st + 1 \<rparr>))) \<and>
         (\<exists>new. actions (snd (snd (login pf self False st))) = actions st @ new \<and> probes new = [])"
proof -
  define e where "e = Exception' (''Session too old ('' @ str_int (days (clock pf (ticks st) - timestamp sd)) @ '' days)'')"
  define st1 where "st1 = say Attempting_fresh_login (say (Session_login_failed e)
      (st\<lparr> actions := actions st @ [Printed Loading_existing_session],
          os_calls := os_calls st + 1, ticks := ticks st + 1 \<rparr>))"
  have a1: "actions st1 = actions st @ [Printed Loading_existing_session, Printed (Session_login_failed e),
      Printed Attempting_fresh_login]"
    by (simp add: st1_def say_def act_def)
  have l: "login pf self False st = fresh_login pf self st1"
    using assms(1) login_with_session_too_old[OF assms, of self]
    by (simp add: login_def file_exists_def st1_def e_def)
  from fresh_login_actions[of pf self st1] obtain new where
    "actions (snd (snd (fresh_login pf self st1))) = actions st1 @ new" "probes new = []" by blast
  then have "\<exists>new. actions (snd (snd (login pf self False st))) = actions st @ new \<and> probes new = []"
    unfolding l a1
    by (intro exI[of _ "[Printed Loading_existing_session, Printed (Session_login_failed e),
      Printed Attempting_fresh_login] @ new"]) (simp add: probes_append)
  with l show ?thesis by (simp add: st1_def e_def)
qed

theorem old_session_is_never_probed_witness:
  "fst (login example_platform example_auth False (example_state (Some old_file))) =
     Inr (Garmin (Some ''runner@example.org'', Some ''secret'') (Some ''fresh-tokens'')) \<and>
   probes (actions (snd (snd (login example_platform example_auth False (example_state (Some old_file)))))) = [] \<and>
   clock example_platform 0 - 0 = timedelta_days 400"
proof -
  let ?old = "\<lparr> session = ''old-tokens'', timestamp = 0, session_email = Some ''runner@example.org'' \<rparr>"
  have m: "str_int (days (clock example_platform (ticks (example_state (Some old_file))) - timestamp ?old))
      = ''400''"
    by code_simp
  have o: "session_file (example_state (Some old_file)) = Some old_file"
    "os_fault example_platform (os_calls (example_state (Some old_file))) = None"
    "pickle_loads example_platform (contents old_file) = Inr ?old"
    "timedelta_days 360 < clock example_platform (ticks (example_state (Some old_file))) - timestamp ?old"
    by (simp_all add: example_state_def example_platform_def old_file_def timedelta_days_def)
  note t = old_session_is_never_probed[OF o, of example_auth, unfolded m]
  from t obtain new where
    n: "actions (snd (snd (login example_platform example_auth False (example_state (Some old_file))))) =
        actions (example_state (Some old_file)) @ new" "probes new = []"
    by blast
  have 1: "probes (actions (snd (snd (login example_platform example_auth False (example_state (Some old_file)))))) = []"
    unfolding n(1) by (simp add: example_state_def n(2))
  have 2: "fst (login example_platform example_auth False (example_state (Some old_file))) =
     Inr (Garmin (Some ''runner@example.org'', Some ''secret'') (Some ''fresh-tokens''))"
    unfolding conjunct1[OF t]
    by (simp add: fresh_login_def example_auth_def example_platform_def truthy_def Let_def)
  have 3: "clock example_platform 0 - 0 = timedelta_days 400"
    by (simp add: example_platform_def)
  from 1 2 3 show ?thesis by (intro conjI)
qed

subsection \<open>Export and import\<close>



subsection \<open>Fresh login\<close>






text \<open>
  C10. When no session file exists, \<open>export_session_for_github\<close> raises the exception
  \<^verbatim>\<open>No session file exists. Login first.\<close> and returns the state it was given: nothing was
  read (the count of file operations is the same), nothing was printed (the actions are the
  same), and the persisted session is as it was.
\<close>

theorem export_needs_a_session_file:
  assumes "session_file st = None"
  shows "export_session_for_github pf self st =
           (Inl (Exception' ''No session file exists. Login first.''), st)"
  using assms by (simp add: export_session_for_github_def file_exists_def)

theorem export_needs_a_session_file_witness:
  "session_file (example_state None) = None \<and>
   export_session_for_github example_platform example_auth (example_state None) =
     (Inl (Exception' ''No session file exists. Login first.''), example_state None)"
proof -
  have n: "session_file (example_state None) = None"
    by (simp add: example_state_def)
  from n export_needs_a_session_file[OF n, of example_platform example_auth]
  show ?thesis by (intro conjI)
qed

end
